theory Spec2Isabelle
  imports Complex_Main "HOL-Library.Multiset"
begin

chapter \<open>Cinn-Math: the game state machine and the board engine\<close>

text \<open>A shallow embedding of the reducer (\<^verbatim>\<open>state/gameState.ts\<close>), the board engine
  (\<^verbatim>\<open>gameLogic/boardUtils.ts\<close>) and the selection value (\<^verbatim>\<open>gameLogic/matchLogic.ts\<close>) of the
  tile-matching game, followed by the properties of its specification. Functions keep the
  names of the source; what the source draws from \<^verbatim>\<open>Math.random()\<close> and
  \<^verbatim>\<open>crypto.randomUUID()\<close> is read from an explicit environment.\<close>

section \<open>Data model (types.ts, constants.ts)\<close>

datatype game_mode = SumMode | MultiplyMode
datatype difficulty = Banana | Apple | Coconut
datatype selection_mode = Drag | Tap
datatype game_status = Ready | Playing | Paused | Clearing | Falling | GameOver
datatype game_screen = StartScreen | GameScreen | ThemesScreen

text \<open>\<^verbatim>\<open>value: number | 'CINNAMOROLL'\<close> and \<^verbatim>\<open>type: 'number' | 'time'\<close>. Tile values are the
  integers that \<^verbatim>\<open>createNumberTile\<close> draws, so the number of a tile is an \<open>int\<close> here.\<close>

datatype tile_value = Num int | CINNAMOROLL
datatype tile_kind = Number | Time

record tile =
  tile_id :: string
  tile_value :: tile_value
  tile_type :: tile_kind

record coords =
  row :: int
  col :: int

text \<open>A board is \<^verbatim>\<open>(TileType | null)[][]\<close>: \<open>None\<close> is \<^verbatim>\<open>null\<close>.\<close>

type_synonym board = "tile option list list"

definition GRID_SIZE :: nat where
  "GRID_SIZE = 5"

section \<open>JavaScript array reads and arithmetic\<close>

text \<open>\<^verbatim>\<open>xs[i]\<close>: \<open>None\<close> is \<^verbatim>\<open>undefined\<close>, the value of a read outside the array.\<close>

definition js_get :: "'a list \<Rightarrow> int \<Rightarrow> 'a option" where
  "js_get xs i = (if 0 \<le> i \<and> i < int (length xs) then Some (xs ! nat i) else None)"

text \<open>\<^verbatim>\<open>board[row]?.[col]\<close>: \<^verbatim>\<open>undefined\<close> outside the board and \<^verbatim>\<open>null\<close> in an empty cell
  are both no tile, and every caller treats them alike (\<^verbatim>\<open>!!t\<close>, \<^verbatim>\<open>?.type\<close>).\<close>

definition cell_at :: "board \<Rightarrow> int \<Rightarrow> int \<Rightarrow> tile option" where
  "cell_at b r c = (case js_get b r of None \<Rightarrow> None
                    | Some rw \<Rightarrow> (case js_get rw c of None \<Rightarrow> None | Some t \<Rightarrow> t))"

text \<open>Numbers. A JS number is a double. The tile values are integers, and so are their sums
  and products, so a number is modelled by an integer that is a double, and \<open>None\<close> stands
  for everything else a result can be: NaN, an infinity, or the string that \<^verbatim>\<open>+\<close> builds from
  the sentinel \<^verbatim>\<open>'CINNAMOROLL'\<close> (\<^verbatim>\<open>tile.value as number\<close> is a cast without a runtime check).
  None of these becomes a finite number again under \<^verbatim>\<open>+\<close> or \<^verbatim>\<open>*\<close>.

  \<open>round_double x\<close> is the double nearest to the integer \<open>x\<close>, as IEEE 754 rounds the exact
  result of an operation: \<open>excess_bits\<close> counts the bits of \<open>\<bar>x\<bar>\<close> beyond the 53 of the
  significand, the bits cut off round to nearest, ties to the even significand, and a result
  of \<open>2 ^ 1024\<close> or more is an infinity. Up to \<open>2 ^ 53\<close> every integer is its own double. The
  two zeros of the doubles are one number here (\<^verbatim>\<open>===\<close> does not tell them apart).\<close>

type_synonym js_number = "int option"

fun excess_bits :: "nat \<Rightarrow> nat" where
  "excess_bits a = (if a < 2 ^ 53 then 0 else Suc (excess_bits (a div 2)))"

declare excess_bits.simps [simp del]

definition round_double :: "int \<Rightarrow> js_number" where
  "round_double x =
     (let a = nat \<bar>x\<bar>;
          e = excess_bits a;
          q = a div 2 ^ e;
          r = a mod 2 ^ e;
          q' = (if 2 * r > 2 ^ e \<or> (2 * r = 2 ^ e \<and> odd q) then q + 1 else q);
          y = q' * 2 ^ e
      in if y \<ge> 2 ^ 1024 then None else Some (sgn x * int y))"

text \<open>\<^verbatim>\<open>tile.value as number\<close>: the value of a tile is a JS number, so a double.\<close>

definition as_number :: "tile \<Rightarrow> js_number" where
  "as_number t = (case tile_value t of Num n \<Rightarrow> round_double n | CINNAMOROLL \<Rightarrow> None)"

text \<open>\<^verbatim>\<open>a + b\<close> and \<^verbatim>\<open>a * b\<close> on numbers: the exact result, rounded to a double.\<close>

definition js_add :: "js_number \<Rightarrow> js_number \<Rightarrow> js_number" where
  "js_add a b =
     (case a of None \<Rightarrow> None
      | Some x \<Rightarrow> (case b of None \<Rightarrow> None | Some y \<Rightarrow> round_double (x + y)))"

definition js_mul :: "js_number \<Rightarrow> js_number \<Rightarrow> js_number" where
  "js_mul a b =
     (case a of None \<Rightarrow> None
      | Some x \<Rightarrow> (case b of None \<Rightarrow> None | Some y \<Rightarrow> round_double (x * y)))"

text \<open>\<^verbatim>\<open>tiles.reduce((sum, tile) => sum + (tile.value as number), 0)\<close> and the product.\<close>

definition reduce_sum :: "tile list \<Rightarrow> js_number" where
  "reduce_sum ts = foldl (\<lambda>sum t. js_add sum (as_number t)) (Some 0) ts"

definition reduce_prod :: "tile list \<Rightarrow> js_number" where
  "reduce_prod ts = foldl (\<lambda>prod t. js_mul prod (as_number t)) (Some 1) ts"

section \<open>Selection value (gameLogic/matchLogic.ts)\<close>

definition is_number_tile :: "tile option \<Rightarrow> bool" where
  "is_number_tile t = (case t of None \<Rightarrow> False | Some x \<Rightarrow> tile_type x = Number)"

definition selectedNumberTiles :: "coords list \<Rightarrow> board \<Rightarrow> tile list" where
  "selectedNumberTiles cs b =
     map the (filter is_number_tile (map (\<lambda>c. cell_at b (row c) (col c)) cs))"

definition calculateSelectionValue :: "coords list \<Rightarrow> board \<Rightarrow> game_mode \<Rightarrow> js_number" where
  "calculateSelectionValue cs b m =
     (let selected = selectedNumberTiles cs b in
      if length selected = 0 then (if m = SumMode then Some 0 else Some 1)
      else if m = SumMode then reduce_sum selected
      else reduce_prod selected)"

section \<open>Randomness, identifiers and storage\<close>

text \<open>The environment the source reads and writes besides its arguments: the stream of
  \<^verbatim>\<open>Math.random()\<close> results, the stream of \<^verbatim>\<open>crypto.randomUUID()\<close> results, each with the
  position of the next draw, the order in which \<^verbatim>\<open>Array.prototype.sort\<close> leaves an array under
  the random comparator \<^verbatim>\<open>() => 0.5 - Math.random()\<close>, and the \<^verbatim>\<open>localStorage\<close> item
  \<^verbatim>\<open>'bestScore'\<close> (kept as the number whose decimal string is stored).\<close>

record world =
  random_draws :: "nat \<Rightarrow> real"
  random_pos :: nat
  uuid_supply :: "nat \<Rightarrow> string"
  uuid_pos :: nat
  random_sort :: "tile list \<Rightarrow> tile list"
  stored_bestScore :: "int option"

definition Math_random :: "world \<Rightarrow> real \<times> world" where
  "Math_random w = (random_draws w (random_pos w), w\<lparr>random_pos := Suc (random_pos w)\<rparr>)"

definition randomUUID :: "world \<Rightarrow> string \<times> world" where
  "randomUUID w = (uuid_supply w (uuid_pos w), w\<lparr>uuid_pos := Suc (uuid_pos w)\<rparr>)"

text \<open>\<^verbatim>\<open>Math.floor(u * n)\<close>\<close>

definition floor_times :: "real \<Rightarrow> nat \<Rightarrow> int" where
  "floor_times u n = \<lfloor>u * real n\<rfloor>"

section \<open>Difficulty settings (constants.ts)\<close>

definition initialTime :: "difficulty \<Rightarrow> int" where
  "initialTime d = (case d of Banana \<Rightarrow> 75 | Apple \<Rightarrow> 60 | Coconut \<Rightarrow> 45)"

definition tileRange :: "difficulty \<Rightarrow> int \<times> int" where
  "tileRange d = (case d of Banana \<Rightarrow> (1, 5) | Apple \<Rightarrow> (1, 9) | Coconut \<Rightarrow> (2, 12))"

definition timeTileProbability :: "difficulty \<Rightarrow> game_mode \<Rightarrow> real" where
  "timeTileProbability d m =
     (case d of
        Banana \<Rightarrow> (case m of SumMode \<Rightarrow> 30 / 100 | MultiplyMode \<Rightarrow> 40 / 100)
      | Apple \<Rightarrow> (case m of SumMode \<Rightarrow> 25 / 100 | MultiplyMode \<Rightarrow> 35 / 100)
      | Coconut \<Rightarrow> (case m of SumMode \<Rightarrow> 15 / 100 | MultiplyMode \<Rightarrow> 25 / 100))"

section \<open>Board engine (gameLogic/boardUtils.ts)\<close>

datatype error =
    TypeError    \<comment> \<open>a property of \<^verbatim>\<open>undefined\<close> is read or set\<close>
  | OutOfBounds  \<comment> \<open>\<^verbatim>\<open>undefined\<close> is stored in the board, or a cell is set beyond the end of a row:
                    JS carries on with an array that is no grid of \<^verbatim>\<open>TileType | null\<close> any more,
                    the model stops\<close>

definition createNumberTile :: "difficulty \<Rightarrow> world \<Rightarrow> tile \<times> world" where
  "createNumberTile d w =
     (case tileRange d of (mn, mx) \<Rightarrow>
      case randomUUID w of (i, w1) \<Rightarrow>
      case Math_random w1 of (u, w2) \<Rightarrow>
        (\<lparr>tile_id = i, tile_value = Num (\<lfloor>u * real_of_int (mx - mn + 1)\<rfloor> + mn), tile_type = Number\<rparr>, w2))"

definition createTimeTile :: "world \<Rightarrow> tile \<times> world" where
  "createTimeTile w =
     (case randomUUID w of (i, w1) \<Rightarrow>
        (\<lparr>tile_id = i, tile_value = CINNAMOROLL, tile_type = Time\<rparr>, w1))"

text \<open>\<^verbatim>\<open>Array.from({ length: n }, () => f())\<close>: \<open>n\<close> calls, in order.\<close>

fun array_from :: "nat \<Rightarrow> (world \<Rightarrow> 'a \<times> world) \<Rightarrow> world \<Rightarrow> 'a list \<times> world" where
  "array_from 0 f w = ([], w)"
| "array_from (Suc n) f w =
     (case f w of (x, w1) \<Rightarrow> case array_from n f w1 of (xs, w2) \<Rightarrow> (x # xs, w2))"

definition createInitialBoard :: "difficulty \<Rightarrow> world \<Rightarrow> (board \<times> string set) \<times> world" where
  "createInitialBoard d w =
     (case array_from GRID_SIZE (array_from GRID_SIZE (createNumberTile d)) w of
        (tiles, w1) \<Rightarrow> ((map (map Some) tiles, set (map tile_id (concat tiles))), w1))"

text \<open>\<^verbatim>\<open>newBoard[r][c]\<close> as \<^verbatim>\<open>applyGravity\<close> and \<^verbatim>\<open>findPathForTarget\<close> read it: a \<^verbatim>\<open>TypeError\<close> when
  \<^verbatim>\<open>newBoard[r]\<close> is \<^verbatim>\<open>undefined\<close>; otherwise \<open>None\<close> is \<^verbatim>\<open>undefined\<close> (no such column),
  \<open>Some None\<close> is \<^verbatim>\<open>null\<close> and \<open>Some (Some t)\<close> a tile.\<close>

definition read_cell :: "board \<Rightarrow> int \<Rightarrow> int \<Rightarrow> error + tile option option" where
  "read_cell b r c = (case js_get b r of None \<Rightarrow> Inl TypeError | Some rw \<Rightarrow> Inr (js_get rw c))"

text \<open>\<^verbatim>\<open>newBoard[r][c] = v\<close>\<close>

definition write_cell :: "board \<Rightarrow> int \<Rightarrow> int \<Rightarrow> tile option \<Rightarrow> error + board" where
  "write_cell b r c v =
     (case js_get b r of
        None \<Rightarrow> Inl TypeError
      | Some rw \<Rightarrow>
          if 0 \<le> c \<and> c < int (length rw) then Inr (b[nat r := rw[nat c := v]])
          else Inl OutOfBounds)"

text \<open>The inner loop \<^verbatim>\<open>for (let r = GRID_SIZE - 1; r >= 0; r--)\<close> of column \<open>c\<close>: the first
  argument after the column is the number of rows still to visit, so \<open>Suc r\<close> is the iteration
  at row \<open>r\<close>. \<open>emptyRow\<close> is \<open>-1\<close> until an empty cell is found.\<close>

fun gravity_scan :: "nat \<Rightarrow> nat \<Rightarrow> int \<Rightarrow> board \<Rightarrow> error + (board \<times> int)" where
  "gravity_scan c 0 emptyRow b = Inr (b, emptyRow)"
| "gravity_scan c (Suc r) emptyRow b =
     (case read_cell b (int r) (int c) of
        Inl e \<Rightarrow> Inl e
      | Inr v \<Rightarrow>
          if v = Some None \<and> emptyRow = - 1 then gravity_scan c r (int r) b
          else if v \<noteq> Some None \<and> emptyRow \<noteq> - 1 then
            (case v of
               None \<Rightarrow> Inl OutOfBounds
             | Some t \<Rightarrow>
                 (case write_cell b emptyRow (int c) t of
                    Inl e \<Rightarrow> Inl e
                  | Inr b1 \<Rightarrow>
                      (case write_cell b1 (int r) (int c) None of
                         Inl e \<Rightarrow> Inl e
                       | Inr b2 \<Rightarrow> gravity_scan c r (emptyRow - 1) b2)))
          else gravity_scan c r emptyRow b)"

text \<open>The loop \<^verbatim>\<open>for (let r = emptyRow; r >= 0; r--)\<close> that fills the top of column \<open>c\<close>;
  \<open>Suc r\<close> is again the iteration at row \<open>r\<close>.\<close>

fun gravity_fill ::
  "nat \<Rightarrow> nat \<Rightarrow> real \<Rightarrow> difficulty \<Rightarrow> board \<Rightarrow> string set \<Rightarrow> world
     \<Rightarrow> error + (board \<times> string set \<times> world)" where
  "gravity_fill c 0 probability d b droppedTileIds w = Inr (b, droppedTileIds, w)"
| "gravity_fill c (Suc r) probability d b droppedTileIds w =
     (case Math_random w of (u, w1) \<Rightarrow>
      case (if u < probability then createTimeTile w1 else createNumberTile d w1) of
        (newTile, w2) \<Rightarrow>
          (case write_cell b (int r) (int c) (Some newTile) of
             Inl e \<Rightarrow> Inl e
           | Inr b1 \<Rightarrow>
               gravity_fill c r probability d b1 (insert (tile_id newTile) droppedTileIds) w2))"

text \<open>The outer loop over the columns \<open>cs\<close>.\<close>

fun gravity_columns ::
  "nat list \<Rightarrow> real \<Rightarrow> difficulty \<Rightarrow> board \<Rightarrow> string set \<Rightarrow> world
     \<Rightarrow> error + (board \<times> string set \<times> world)" where
  "gravity_columns [] probability d b droppedTileIds w = Inr (b, droppedTileIds, w)"
| "gravity_columns (c # cs) probability d b droppedTileIds w =
     (case gravity_scan c GRID_SIZE (- 1) b of
        Inl e \<Rightarrow> Inl e
      | Inr (b1, emptyRow) \<Rightarrow>
          (case gravity_fill c (nat (emptyRow + 1)) probability d b1 droppedTileIds w of
             Inl e \<Rightarrow> Inl e
           | Inr (b2, ids, w1) \<Rightarrow> gravity_columns cs probability d b2 ids w1))"

text \<open>Returns \<^verbatim>\<open>{ nextBoard, droppedIds }\<close> and the environment after the draws.\<close>

definition applyGravity ::
  "board \<Rightarrow> game_mode \<Rightarrow> difficulty \<Rightarrow> world \<Rightarrow> error + (board \<times> string set \<times> world)" where
  "applyGravity currentBoard gameMode d w =
     gravity_columns [0..<GRID_SIZE] (timeTileProbability d gameMode) d
       (map (\<lambda>rw. rw) currentBoard) {} w"

subsection \<open>findPathForTarget\<close>

text \<open>\<^verbatim>\<open>cell?.type === 'number'\<close> on the result of a read: \<^verbatim>\<open>undefined\<close> and \<^verbatim>\<open>null\<close> have no
  type.\<close>

definition tile_of :: "tile option option \<Rightarrow> tile option" where
  "tile_of v = (case v of None \<Rightarrow> None | Some t \<Rightarrow> t)"

definition numberTiles :: "board \<Rightarrow> tile list" where
  "numberTiles b = map the (filter is_number_tile (concat b))"

text \<open>The loop \<^verbatim>\<open>do { ... } while (board[startRow][startCol]?.type !== 'number')\<close>. It draws
  until it hits a number tile, so it need not return: \<open>None\<close> is that case.\<close>

partial_function (option) pick_start :: "board \<Rightarrow> world \<Rightarrow> (error + (int \<times> int \<times> world)) option" where
  "pick_start b w =
     (case Math_random w of (u1, w1) \<Rightarrow>
      case Math_random w1 of (u2, w2) \<Rightarrow>
        (case read_cell b (floor_times u1 GRID_SIZE) (floor_times u2 GRID_SIZE) of
           Inl e \<Rightarrow> Some (Inl e)
         | Inr v \<Rightarrow>
             if \<not> is_number_tile (tile_of v) then pick_start b w2
             else Some (Inr (floor_times u1 GRID_SIZE, floor_times u2 GRID_SIZE, w2))))"

declare pick_start.simps [code]

text \<open>The predicate of the \<^verbatim>\<open>neighbors\<close> filter; \<^verbatim>\<open>&&\<close> reads the board only for a
  coordinate inside the grid that is not visited.\<close>

definition neighbor_ok :: "board \<Rightarrow> (int \<times> int) set \<Rightarrow> int \<times> int \<Rightarrow> error + bool" where
  "neighbor_ok b visited p =
     (case p of (r, c) \<Rightarrow>
        if r \<ge> 0 \<and> r < int GRID_SIZE \<and> c \<ge> 0 \<and> c < int GRID_SIZE \<and> (r, c) \<notin> visited
        then (case read_cell b r c of Inl e \<Rightarrow> Inl e | Inr v \<Rightarrow> Inr (is_number_tile (tile_of v)))
        else Inr False)"

text \<open>\<^verbatim>\<open>xs.filter(p)\<close> and \<^verbatim>\<open>xs.map(f)\<close> with a callback that may throw.\<close>

fun filter_err :: "('a \<Rightarrow> error + bool) \<Rightarrow> 'a list \<Rightarrow> error + 'a list" where
  "filter_err p [] = Inr []"
| "filter_err p (x # xs) =
     (case p x of
        Inl e \<Rightarrow> Inl e
      | Inr keep \<Rightarrow>
          (case filter_err p xs of
             Inl e \<Rightarrow> Inl e
           | Inr ys \<Rightarrow> Inr (if keep then x # ys else ys)))"

fun map_err :: "('a \<Rightarrow> error + 'b) \<Rightarrow> 'a list \<Rightarrow> error + 'b list" where
  "map_err f [] = Inr []"
| "map_err f (x # xs) =
     (case f x of
        Inl e \<Rightarrow> Inl e
      | Inr y \<Rightarrow> (case map_err f xs of Inl e \<Rightarrow> Inl e | Inr ys \<Rightarrow> Inr (y # ys)))"

text \<open>The loop \<^verbatim>\<open>for (let i = 0; i < pathLength - 1; i++)\<close>; the first argument is the number
  of iterations left, \<open>path\<close> holds \<open>(row, col)\<close> pairs and \<open>visited\<close> the pairs whose keys
  \<^verbatim>\<open>`${r},${c}`\<close> are in the set.\<close>

fun extend_path ::
  "nat \<Rightarrow> board \<Rightarrow> (int \<times> int) list \<Rightarrow> (int \<times> int) set \<Rightarrow> world
     \<Rightarrow> error + ((int \<times> int) list \<times> world)" where
  "extend_path 0 b path visited w = Inr (path, w)"
| "extend_path (Suc n) b path visited w =
     (case last path of (lr, lc) \<Rightarrow>
        (case filter_err (neighbor_ok b visited)
                [(lr - 1, lc), (lr + 1, lc), (lr, lc - 1), (lr, lc + 1)] of
           Inl e \<Rightarrow> Inl e
         | Inr neighbors \<Rightarrow>
             if length neighbors > 0 then
               (case Math_random w of (u, w1) \<Rightarrow>
                  (case js_get neighbors (floor_times u (length neighbors)) of
                     None \<Rightarrow> Inl TypeError
                   | Some next \<Rightarrow> extend_path n b (path @ [next]) (insert next visited) w1))
             else Inr (path, w)))"

definition reduce_mode :: "game_mode \<Rightarrow> tile list \<Rightarrow> js_number" where
  "reduce_mode gameMode ts = (if gameMode = SumMode then reduce_sum ts else reduce_prod ts)"

text \<open>The part of \<^verbatim>\<open>findPathForTarget\<close> after the start has been picked.\<close>

definition target_from_start ::
  "board \<Rightarrow> game_mode \<Rightarrow> int \<Rightarrow> int \<Rightarrow> world \<Rightarrow> error + js_number" where
  "target_from_start b gameMode startRow startCol w =
     (case Math_random w of (u, w1) \<Rightarrow>
      let pathLength = floor_times u 2 + 2 in
      case extend_path (nat (pathLength - 1)) b [(startRow, startCol)] {(startRow, startCol)} w1 of
        Inl e \<Rightarrow> Inl e
      | Inr (path, w2) \<Rightarrow>
          (case map_err (\<lambda>(r, c). read_cell b r c) path of
             Inl e \<Rightarrow> Inl e
           | Inr cells \<Rightarrow>
               let targetTiles = map the (filter (\<lambda>t. t \<noteq> None) (map tile_of cells)) in
               if length targetTiles < 2 then
                 (let randomTiles = take 2 (random_sort w2 (numberTiles b)) in
                  if length randomTiles < 2 then Inr (Some 10)
                  else Inr (reduce_mode gameMode randomTiles))
               else Inr (reduce_mode gameMode targetTiles)))"

text \<open>\<open>None\<close>: the search for a start never ends; \<open>Some (Inl e)\<close>: an exception;
  \<open>Some (Inr v)\<close>: the target returned.\<close>

definition findPathForTarget :: "board \<Rightarrow> game_mode \<Rightarrow> world \<Rightarrow> (error + js_number) option" where
  "findPathForTarget b gameMode w =
     (if length (numberTiles b) < 2 then Some (Inr (Some 10))
      else
        (case pick_start b w of
           None \<Rightarrow> None
         | Some (Inl e) \<Rightarrow> Some (Inl e)
         | Some (Inr (startRow, startCol, w1)) \<Rightarrow>
             Some (target_from_start b gameMode startRow startCol w1)))"

section \<open>Game state and reducer (state/gameState.ts)\<close>

record start_game_config =
  mode :: game_mode
  difficulty :: difficulty
  selectionMode :: selection_mode

record particle =
  particle_id :: string
  particle_x :: real
  particle_y :: real
  particle_size :: real
  particle_dx :: real
  particle_dy :: real
  particle_endScale :: real

record number_particle =
  number_particle_id :: string
  number_particle_number :: int
  startX :: real
  startY :: real
  endX :: real
  endY :: real
  delay :: real

record announcement =
  announcement_text :: string
  announcement_style :: string
  announcement_id :: string

text \<open>\<^verbatim>\<open>valueIndicator: { visible, value, x, y }\<close>; \<open>indicator_value\<close> holds what
  \<^verbatim>\<open>calculateSelectionValue\<close> returned.\<close>

record value_indicator =
  visible :: bool
  indicator_value :: js_number
  indicator_x :: real
  indicator_y :: real

record game_state =
  gameScreen :: game_screen
  status :: game_status
  config :: start_game_config
  board :: board
  selectedCoords :: "coords list"
  isSelecting :: bool
  targetNumber :: int
  timeLeft :: int
  score :: int
  bestScore :: int
  comboCount :: int
  comboTimerKey :: string
  clearingCoords :: "coords list"
  droppingTileIds :: "string set"
  fallingOffTimeTileIds :: "string set"
  incorrectSelection :: "string option"
  isTargetMatched :: bool
  scoreJustUpdated :: bool
  particles :: "particle list"
  numberParticles :: "number_particle list"
  announcements :: "announcement list"
  showValueIndicator :: bool
  valueIndicator :: value_indicator

text \<open>\<^verbatim>\<open>initialState\<close> is built once, when the module loads: \<open>loadedBestScore\<close> is
  \<^verbatim>\<open>parseInt(localStorage.getItem('bestScore') || '0')\<close>, \<open>loadedKey\<close> the
  \<^verbatim>\<open>crypto.randomUUID()\<close> of that moment and \<open>loadedShow\<close> the stored preference.\<close>

definition initialState :: "int \<Rightarrow> string \<Rightarrow> bool \<Rightarrow> game_state" where
  "initialState loadedBestScore loadedKey loadedShow =
     \<lparr>gameScreen = StartScreen,
      status = Ready,
      config = \<lparr>mode = SumMode, difficulty = Banana, selectionMode = Tap\<rparr>,
      board = [],
      selectedCoords = [],
      isSelecting = False,
      targetNumber = 0,
      timeLeft = 0,
      score = 0,
      bestScore = loadedBestScore,
      comboCount = 0,
      comboTimerKey = loadedKey,
      clearingCoords = [],
      droppingTileIds = {},
      fallingOffTimeTileIds = {},
      incorrectSelection = None,
      isTargetMatched = False,
      scoreJustUpdated = False,
      particles = [],
      numberParticles = [],
      announcements = [],
      showValueIndicator = loadedShow,
      valueIndicator = \<lparr>visible = False, indicator_value = Some 0, indicator_x = 0, indicator_y = 0\<rparr>\<rparr>"

datatype game_action =
    START_GAME start_game_config
  | PAUSE_GAME
  | RESUME_GAME
  | RESTART_GAME
  | RETURN_TO_MENU
  | NAVIGATE_THEMES
  | NAVIGATE_BACK game_screen
  | TICK
  | GAME_OVER
  | POINTER_DOWN "coords option"
  | POINTER_MOVE "coords option" real real
  | POINTER_UP
  | MATCH_SUCCESS int "coords list"
  | MATCH_FAILURE
  | FINISH_CLEARING board "string set"
  | START_BONUS_FALL "string set" int
  | FINISH_BONUS_FALL board "string set"
  | FINISH_TURN int
  | RESET_ANIMATIONS
  | ADD_ANNOUNCEMENT string "string option"
  | REMOVE_ANNOUNCEMENT string
  | REMOVE_PARTICLE string
  | REMOVE_NUMBER_PARTICLE string
  | TOGGLE_VALUE_INDICATOR

text \<open>\<^verbatim>\<open>c.row === p.row && c.col === p.col\<close>\<close>

definition same_cell :: "coords \<Rightarrow> coords \<Rightarrow> bool" where
  "same_cell c p = (row c = row p \<and> col c = col p)"

text \<open>The cases \<^verbatim>\<open>START_GAME\<close> and \<^verbatim>\<open>RESTART_GAME\<close> share their body but for the configuration.\<close>

definition new_game :: "game_state \<Rightarrow> game_state \<Rightarrow> start_game_config \<Rightarrow> world \<Rightarrow> game_state \<times> world" where
  "new_game init state cfg w =
     (case createInitialBoard (difficulty cfg) w of
        ((newBoard, allIds), w1) \<Rightarrow>
          (init\<lparr>gameScreen := GameScreen,
                status := Playing,
                config := cfg,
                board := newBoard,
                timeLeft := initialTime (difficulty cfg),
                droppingTileIds := allIds,
                bestScore := bestScore state,
                showValueIndicator := showValueIndicator state\<rparr>, w1))"

text \<open>The bodies of the cases \<^verbatim>\<open>POINTER_DOWN\<close>, \<^verbatim>\<open>POINTER_MOVE\<close> and \<^verbatim>\<open>MATCH_SUCCESS\<close>. In
  \<open>pointer_move\<close>, \<open>p\<close> is the \<^verbatim>\<open>coords\<close> that the source takes from the payload once it is known
  not to be \<^verbatim>\<open>null\<close>.\<close>

definition pointer_down :: "game_state \<Rightarrow> coords option \<Rightarrow> game_state" where
  "pointer_down state payload =
     (case payload of
        None \<Rightarrow> state
      | Some p \<Rightarrow>
          if status state \<noteq> Playing then state
          else if selectionMode (config state) = Tap then
            (let isSelected = list_ex (\<lambda>c. same_cell c p) (selectedCoords state);
                 newSelection =
                   (if isSelected
                    then filter (\<lambda>c. row c \<noteq> row p \<or> col c \<noteq> col p) (selectedCoords state)
                    else selectedCoords state @ [p])
             in state\<lparr>selectedCoords := newSelection\<rparr>)
          else
            (let initialSelection = [p];
                 initialValue = calculateSelectionValue initialSelection (board state) (mode (config state))
             in state\<lparr>isSelecting := True,
                      selectedCoords := initialSelection,
                      valueIndicator := (valueIndicator state)\<lparr>visible := True, indicator_value := initialValue\<rparr>\<rparr>))"

definition pointer_move :: "game_state \<Rightarrow> coords option \<Rightarrow> real \<Rightarrow> real \<Rightarrow> game_state" where
  "pointer_move state payload clientX clientY =
     (if \<not> isSelecting state \<or> payload = None then
        state\<lparr>valueIndicator := (valueIndicator state)\<lparr>indicator_x := clientX, indicator_y := clientY\<rparr>\<rparr>
      else
        let p = the payload; sel = selectedCoords state in
        if length sel = 0 then
          state\<lparr>valueIndicator :=
                  (valueIndicator state)\<lparr>indicator_x := clientX, indicator_y := clientY, visible := False\<rparr>\<rparr>
        else if length sel > 1 \<and> same_cell (sel ! (length sel - 2)) p then
          (let newSelection = butlast sel;
               newValue = calculateSelectionValue newSelection (board state) (mode (config state))
           in state\<lparr>selectedCoords := newSelection,
                    valueIndicator :=
                      \<lparr>visible = True, indicator_value = newValue,
                       indicator_x = clientX, indicator_y = clientY\<rparr>\<rparr>)
        else if list_ex (\<lambda>c. same_cell c p) sel then
          state\<lparr>valueIndicator := (valueIndicator state)\<lparr>indicator_x := clientX, indicator_y := clientY\<rparr>\<rparr>
        else
          (let lastCoord = sel ! (length sel - 1);
               isAdjacent = (\<bar>row lastCoord - row p\<bar> \<le> 1 \<and> \<bar>col lastCoord - col p\<bar> \<le> 1)
           in if isAdjacent then
                (let newSelection = sel @ [p];
                     newValue = calculateSelectionValue newSelection (board state) (mode (config state))
                 in state\<lparr>selectedCoords := newSelection,
                          valueIndicator :=
                            \<lparr>visible = True, indicator_value = newValue,
                             indicator_x = clientX, indicator_y = clientY\<rparr>\<rparr>)
              else
                state\<lparr>valueIndicator :=
                        (valueIndicator state)\<lparr>indicator_x := clientX, indicator_y := clientY\<rparr>\<rparr>))"

definition match_success :: "game_state \<Rightarrow> int \<Rightarrow> coords list \<Rightarrow> world \<Rightarrow> game_state \<times> world" where
  "match_success state points coordsToClear w =
     (let newScore = score state + points;
          newBestScore = max (bestScore state) newScore;
          w1 = w\<lparr>stored_bestScore := Some newBestScore\<rparr>
      in case randomUUID w1 of
           (key, w2) \<Rightarrow>
             (state\<lparr>score := newScore,
                    bestScore := newBestScore,
                    scoreJustUpdated := True,
                    isTargetMatched := True,
                    comboCount := comboCount state + 1,
                    comboTimerKey := key,
                    status := Clearing,
                    selectedCoords := [],
                    clearingCoords := coordsToClear\<rparr>, w2))"

text \<open>The reducer. \<open>init\<close> is the module's \<^verbatim>\<open>initialState\<close>; the environment is threaded through
  because four cases draw identifiers or random numbers and one writes \<^verbatim>\<open>localStorage\<close>.\<close>

fun gameReducer :: "game_state \<Rightarrow> game_state \<Rightarrow> game_action \<Rightarrow> world \<Rightarrow> game_state \<times> world" where
  "gameReducer init state (START_GAME payload) w = new_game init state payload w"
| "gameReducer init state RESTART_GAME w = new_game init state (config state) w"
| "gameReducer init state PAUSE_GAME w = (state\<lparr>status := Paused\<rparr>, w)"
| "gameReducer init state RESUME_GAME w = (state\<lparr>status := Playing\<rparr>, w)"
| "gameReducer init state RETURN_TO_MENU w = (state\<lparr>gameScreen := StartScreen, status := Ready\<rparr>, w)"
| "gameReducer init state NAVIGATE_THEMES w = (state\<lparr>gameScreen := ThemesScreen\<rparr>, w)"
| "gameReducer init state (NAVIGATE_BACK payload) w = (state\<lparr>gameScreen := payload\<rparr>, w)"
| "gameReducer init state TICK w = (state\<lparr>timeLeft := max 0 (timeLeft state - 1)\<rparr>, w)"
| "gameReducer init state GAME_OVER w = (state\<lparr>status := GameOver\<rparr>, w)"
| "gameReducer init state (POINTER_DOWN payload) w = (pointer_down state payload, w)"
| "gameReducer init state (POINTER_MOVE payload clientX clientY) w =
     (pointer_move state payload clientX clientY, w)"
| "gameReducer init state POINTER_UP w =
     (state\<lparr>isSelecting := False, valueIndicator := (valueIndicator state)\<lparr>visible := False\<rparr>\<rparr>, w)"
| "gameReducer init state (MATCH_SUCCESS points coordsToClear) w =
     match_success state points coordsToClear w"
| "gameReducer init state MATCH_FAILURE w =
     (case randomUUID w of
        (key, w1) \<Rightarrow> (state\<lparr>incorrectSelection := Some key, selectedCoords := []\<rparr>, w1))"
| "gameReducer init state (FINISH_CLEARING nextBoard droppedIds) w =
     (state\<lparr>status := Falling, board := nextBoard, droppingTileIds := droppedIds,
            clearingCoords := []\<rparr>, w)"
| "gameReducer init state (START_BONUS_FALL timeTiles timeToAdd) w =
     (state\<lparr>fallingOffTimeTileIds := timeTiles, timeLeft := timeLeft state + timeToAdd\<rparr>, w)"
| "gameReducer init state (FINISH_BONUS_FALL nextBoard droppedIds) w =
     (state\<lparr>board := nextBoard, droppingTileIds := droppedIds, fallingOffTimeTileIds := {}\<rparr>, w)"
| "gameReducer init state (FINISH_TURN newTarget) w =
     (state\<lparr>status := Playing, targetNumber := newTarget\<rparr>, w)"
| "gameReducer init state RESET_ANIMATIONS w =
     (state\<lparr>scoreJustUpdated := False, isTargetMatched := False, incorrectSelection := None,
            droppingTileIds := {}\<rparr>, w)"
| "gameReducer init state (ADD_ANNOUNCEMENT text style) w =
     (case randomUUID w of
        (i, w1) \<Rightarrow>
          (let newAnnouncement =
                 \<lparr>announcement_text = text,
                  announcement_style =
                    (case style of None \<Rightarrow> ''text-pink-500''
                     | Some s \<Rightarrow> if s = [] then ''text-pink-500'' else s),
                  announcement_id = i\<rparr>
           in (state\<lparr>announcements := announcements state @ [newAnnouncement]\<rparr>, w1)))"
| "gameReducer init state (REMOVE_ANNOUNCEMENT payload) w =
     (state\<lparr>announcements := filter (\<lambda>a. announcement_id a \<noteq> payload) (announcements state)\<rparr>, w)"
| "gameReducer init state (REMOVE_PARTICLE payload) w =
     (state\<lparr>particles := filter (\<lambda>p. particle_id p \<noteq> payload) (particles state)\<rparr>, w)"
| "gameReducer init state (REMOVE_NUMBER_PARTICLE payload) w =
     (state\<lparr>numberParticles := filter (\<lambda>p. number_particle_id p \<noteq> payload) (numberParticles state)\<rparr>, w)"
| "gameReducer init state TOGGLE_VALUE_INDICATOR w =
     (state\<lparr>showValueIndicator := \<not> showValueIndicator state\<rparr>, w)"

section \<open>Notions used to state the properties\<close>

text \<open>The tiles occupying the listed coordinates, in order, with empty cells and coordinates
  off the board skipped; and the number tiles among them.\<close>

definition tiles_on :: "coords list \<Rightarrow> board \<Rightarrow> tile list" where
  "tiles_on cs b =
     concat (map (\<lambda>c. case cell_at b (row c) (col c) of None \<Rightarrow> [] | Some t \<Rightarrow> [t]) cs)"

definition number_tiles_on :: "coords list \<Rightarrow> board \<Rightarrow> tile list" where
  "number_tiles_on cs b = filter (\<lambda>t. tile_type t = Number) (tiles_on cs b)"

text \<open>An integer that doubles represent together with its neighbours (JS:
  \<^verbatim>\<open>Number.isSafeInteger\<close>), and the running results of folding \<open>f\<close> from \<open>a\<close> over a list
  of integers.\<close>

definition safe_integer :: "int \<Rightarrow> bool" where
  "safe_integer x = (\<bar>x\<bar> < 2 ^ 53)"

fun running :: "(int \<Rightarrow> int \<Rightarrow> int) \<Rightarrow> int \<Rightarrow> int list \<Rightarrow> int list" where
  "running f a [] = []"
| "running f a (v # vs) = f a v # running f (f a v) vs"

text \<open>A coordinate inside the array \<open>b\<close>, and inside the \<open>GRID_SIZE\<close> square.\<close>

definition in_board :: "board \<Rightarrow> coords \<Rightarrow> bool" where
  "in_board b c =
     (0 \<le> row c \<and> row c < int (length b) \<and> 0 \<le> col c \<and> col c < int (length (b ! nat (row c))))"

definition in_grid :: "coords \<Rightarrow> bool" where
  "in_grid c = (0 \<le> row c \<and> row c < int GRID_SIZE \<and> 0 \<le> col c \<and> col c < int GRID_SIZE)"

text \<open>Dispatching a sequence of actions, and the state after the first \<open>k\<close> of them.\<close>

fun dispatch :: "game_state \<Rightarrow> game_state \<Rightarrow> game_action list \<Rightarrow> world \<Rightarrow> game_state \<times> world" where
  "dispatch init state [] w = (state, w)"
| "dispatch init state (a # as) w =
     (case gameReducer init state a w of (state1, w1) \<Rightarrow> dispatch init state1 as w1)"

definition state_after :: "game_state \<Rightarrow> game_state \<Rightarrow> game_action list \<Rightarrow> world \<Rightarrow> nat \<Rightarrow> game_state" where
  "state_after init state as w k = fst (dispatch init state (take k as) w)"

definition is_match_success :: "game_action \<Rightarrow> bool" where
  "is_match_success a = (case a of MATCH_SUCCESS points coordsToClear \<Rightarrow> True | _ \<Rightarrow> False)"

definition match_points :: "game_action \<Rightarrow> int" where
  "match_points a = (case a of MATCH_SUCCESS points coordsToClear \<Rightarrow> points | _ \<Rightarrow> 0)"

text \<open>A grid of \<open>GRID_SIZE\<close> rows of \<open>GRID_SIZE\<close> cells, as \<^verbatim>\<open>createInitialBoard\<close> builds it; column
  \<open>c\<close> of a board from top to bottom; and the tiles of a list of cells.\<close>

definition board_ok :: "board \<Rightarrow> bool" where
  "board_ok b = (length b = GRID_SIZE \<and> list_all (\<lambda>rw. length rw = GRID_SIZE) b)"

definition column :: "board \<Rightarrow> nat \<Rightarrow> tile option list" where
  "column b c = map (\<lambda>rw. rw ! c) b"

definition tiles_in :: "tile option list \<Rightarrow> tile list" where
  "tiles_in cells = map the (filter (\<lambda>x. x \<noteq> None) cells)"

definition empty_count :: "tile option list \<Rightarrow> nat" where
  "empty_count cells = length (filter (\<lambda>x. x = None) cells)"

text \<open>The cells at the top of column \<open>c\<close> of \<open>b'\<close>, as many as column \<open>c\<close> of \<open>b\<close> has empty
  cells.\<close>

definition new_cells :: "board \<Rightarrow> board \<Rightarrow> nat \<Rightarrow> tile option list" where
  "new_cells b b' c = take (empty_count (column b c)) (column b' c)"

text \<open>Paths of number tiles: a cell of the grid that holds a number tile; two cells next to
  each other in a row or a column; a list of cells each next to the one before it; a path of
  2 or 3 distinct such cells; the tiles along a path; and a target that is the sum or product
  (the reduce of the mode) along some path.\<close>

definition number_cell :: "board \<Rightarrow> int \<times> int \<Rightarrow> bool" where
  "number_cell b p =
     (0 \<le> fst p \<and> fst p < int GRID_SIZE \<and> 0 \<le> snd p \<and> snd p < int GRID_SIZE \<and>
      is_number_tile (cell_at b (fst p) (snd p)))"

definition adjacent4 :: "int \<times> int \<Rightarrow> int \<times> int \<Rightarrow> bool" where
  "adjacent4 p q = (\<bar>fst p - fst q\<bar> + \<bar>snd p - snd q\<bar> = 1)"

fun contiguous :: "(int \<times> int) list \<Rightarrow> bool" where
  "contiguous (p # q # ps) = (adjacent4 p q \<and> contiguous (q # ps))"
| "contiguous ps = True"

definition number_path :: "board \<Rightarrow> (int \<times> int) list \<Rightarrow> bool" where
  "number_path b path =
     ((length path = 2 \<or> length path = 3) \<and> distinct path \<and>
      list_all (number_cell b) path \<and> contiguous path)"

definition path_tiles :: "board \<Rightarrow> (int \<times> int) list \<Rightarrow> tile list" where
  "path_tiles b path = map (\<lambda>p. the (cell_at b (fst p) (snd p))) path"

definition reachable_by_path :: "board \<Rightarrow> game_mode \<Rightarrow> js_number \<Rightarrow> bool" where
  "reachable_by_path b m v = (\<exists>path. number_path b path \<and> reduce_mode m (path_tiles b path) = v)"

text \<open>A target that is the sum or product of two number tiles of the board, wherever they
  are (two occurrences in the list of number tiles).\<close>

definition two_number_tiles :: "board \<Rightarrow> game_mode \<Rightarrow> js_number \<Rightarrow> bool" where
  "two_number_tiles b m v =
     (\<exists>t1 t2. mset [t1, t2] \<subseteq># mset (numberTiles b) \<and> reduce_mode m [t1, t2] = v)"

text \<open>What the environment owes: \<^verbatim>\<open>Math.random()\<close> returns numbers from 0 up to but excluding 1;
  the sort returns a permutation of the number tiles; and the \<open>k\<close>-th pair of draws of the
  search for a start (counted from 0) hits a number tile.\<close>

definition unit_draws :: "world \<Rightarrow> bool" where
  "unit_draws w = (\<forall>n. 0 \<le> random_draws w n \<and> random_draws w n < 1)"

definition sort_permutes :: "world \<Rightarrow> board \<Rightarrow> bool" where
  "sort_permutes w b = (mset (random_sort w (numberTiles b)) = mset (numberTiles b))"

definition start_found :: "board \<Rightarrow> world \<Rightarrow> nat \<Rightarrow> bool" where
  "start_found b w k =
     is_number_tile
       (cell_at b (floor_times (random_draws w (random_pos w + 2 * k)) GRID_SIZE)
                  (floor_times (random_draws w (random_pos w + 2 * k + 1)) GRID_SIZE))"

text \<open>A number tile without a number tile next to it in its row or column.\<close>

definition lonely_cell :: "board \<Rightarrow> int \<times> int \<Rightarrow> bool" where
  "lonely_cell b p = (number_cell b p \<and> \<not> (\<exists>q. adjacent4 p q \<and> number_cell b q))"

section \<open>Example inputs\<close>

definition number_tile :: "string \<Rightarrow> int \<Rightarrow> tile option" where
  "number_tile i v = Some \<lparr>tile_id = i, tile_value = Num v, tile_type = Number\<rparr>"

definition time_tile :: "string \<Rightarrow> tile option" where
  "time_tile i = Some \<lparr>tile_id = i, tile_value = CINNAMOROLL, tile_type = Time\<rparr>"

text \<open>A board in the middle of a turn, with three cleared cells.\<close>

definition example_board :: board where
  "example_board =
     [[number_tile ''a0'' 3, number_tile ''a1'' 5, time_tile ''a2'', number_tile ''a3'' 2, number_tile ''a4'' 1],
      [number_tile ''b0'' 4, None, number_tile ''b2'' 2, number_tile ''b3'' 2, number_tile ''b4'' 1],
      [None, number_tile ''c1'' 1, number_tile ''c2'' 5, time_tile ''c3'', number_tile ''c4'' 3],
      [number_tile ''d0'' 2, None, number_tile ''d2'' 4, number_tile ''d3'' 1, number_tile ''d4'' 5],
      [number_tile ''e0'' 1, number_tile ''e1'' 3, number_tile ''e2'' 3, number_tile ''e3'' 4, time_tile ''e4'']]"

text \<open>A full board whose only number tiles, at \<open>(0, 0)\<close> and \<open>(2, 2)\<close>, have no number tile next
  to them.\<close>

definition isolated_board :: board where
  "isolated_board =
     [[number_tile ''a0'' 3, time_tile ''a1'', time_tile ''a2'', time_tile ''a3'', time_tile ''a4''],
      [time_tile ''b0'', time_tile ''b1'', time_tile ''b2'', time_tile ''b3'', time_tile ''b4''],
      [time_tile ''c0'', time_tile ''c1'', number_tile ''c2'' 4, time_tile ''c3'', time_tile ''c4''],
      [time_tile ''d0'', time_tile ''d1'', time_tile ''d2'', time_tile ''d3'', time_tile ''d4''],
      [time_tile ''e0'', time_tile ''e1'', time_tile ''e2'', time_tile ''e3'', time_tile ''e4'']]"

text \<open>An environment whose \<^verbatim>\<open>Math.random()\<close> returns the numbers of \<open>ds\<close> and then \<open>0\<close>, whose
  identifiers are \<open>id\<close>, \<open>id+\<close>, \<open>id++\<close>, ... and whose sort leaves the order as it is.\<close>

definition example_world :: "real list \<Rightarrow> world" where
  "example_world ds =
     \<lparr>random_draws = (\<lambda>n. if n < length ds then ds ! n else 0),
      random_pos = 0,
      uuid_supply = (\<lambda>n. ''id'' @ replicate n (CHR ''+'')),
      uuid_pos = 0,
      random_sort = (\<lambda>ts. ts),
      stored_bestScore = None\<rparr>"

definition example_init :: game_state where
  "example_init = initialState 0 ''key'' True"

text \<open>A game in drag mode on the example board, and the same game once it is over.\<close>

definition example_state :: game_state where
  "example_state =
     example_init\<lparr>gameScreen := GameScreen, status := Playing,
       config := \<lparr>mode = SumMode, difficulty = Banana, selectionMode = Drag\<rparr>,
       board := example_board, targetNumber := 8, timeLeft := 3, score := 10, bestScore := 12\<rparr>"

definition example_over :: game_state where
  "example_over = example_state\<lparr>status := GameOver\<rparr>"

definition cell :: "int \<Rightarrow> int \<Rightarrow> coords" where
  "cell r c = \<lparr>row = r, col = c\<rparr>"

text \<open>A board of number tiles of value 11, and a selection of 16 of its cells: the product
  \<open>11 ^ 16\<close> is above \<open>2 ^ 53\<close> and is no double.\<close>

definition elevens_board :: board where
  "elevens_board = replicate 5 (replicate 5 (number_tile ''t'' 11))"

definition sixteen_cells :: "coords list" where
  "sixteen_cells =
     [cell 0 0, cell 0 1, cell 0 2, cell 0 3, cell 0 4,
      cell 1 4, cell 1 3, cell 1 2, cell 1 1, cell 1 0,
      cell 2 0, cell 2 1, cell 2 2, cell 2 3, cell 2 4,
      cell 3 4]"

text \<open>The example game with a drag selection of two cells under way, and with no time left.\<close>

definition example_dragging :: game_state where
  "example_dragging = example_state\<lparr>isSelecting := True, selectedCoords := [cell 0 0, cell 0 1]\<rparr>"

definition example_still :: game_state where
  "example_still = example_state\<lparr>timeLeft := 0\<rparr>"

definition example_matches :: "game_action list" where
  "example_matches = [MATCH_SUCCESS 4 [cell 0 0], MATCH_SUCCESS 0 []]"

section \<open>Loop invariants of applyGravity\<close>

text \<open>Before the iteration at row \<open>n - 1\<close> of the scan of column \<open>c\<close>: either no empty cell was
  seen and rows \<open>n\<close> and below hold tiles, or \<open>emptyRow\<close> is the lowest empty cell, with empty
  cells from row \<open>n\<close> down to it and tiles below it.\<close>

definition scan_inv :: "nat \<Rightarrow> nat \<Rightarrow> int \<Rightarrow> board \<Rightarrow> bool" where
  "scan_inv c n emptyRow b =
     (if emptyRow = - 1 then (\<forall>i. n \<le> i \<and> i < GRID_SIZE \<longrightarrow> b ! i ! c \<noteq> None)
      else int n \<le> emptyRow \<and> emptyRow < int GRID_SIZE \<and>
           (\<forall>i. n \<le> i \<and> int i \<le> emptyRow \<longrightarrow> b ! i ! c = None) \<and>
           (\<forall>i. emptyRow < int i \<and> i < GRID_SIZE \<longrightarrow> b ! i ! c \<noteq> None))"

text \<open>After the scan: the other columns are as before, column \<open>c\<close> is empty down to
  \<open>emptyRow\<close> and holds below it the tiles it held, in their order.\<close>

definition scan_post :: "nat \<Rightarrow> board \<Rightarrow> board \<Rightarrow> int \<Rightarrow> bool" where
  "scan_post c b b' emptyRow =
     (board_ok b' \<and> (\<forall>c'. c' \<noteq> c \<longrightarrow> column b' c' = column b c') \<and>
      - 1 \<le> emptyRow \<and> emptyRow < int GRID_SIZE \<and>
      (\<forall>i. int i \<le> emptyRow \<longrightarrow> b' ! i ! c = None) \<and>
      (\<forall>i. emptyRow < int i \<and> i < GRID_SIZE \<longrightarrow> b' ! i ! c \<noteq> None) \<and>
      filter (\<lambda>x. x \<noteq> None) (column b' c) = filter (\<lambda>x. x \<noteq> None) (column b c))"

text \<open>After filling the top \<open>k\<close> rows of column \<open>c\<close>: they hold new tiles \<open>ts\<close>, whose identifiers
  are the next \<open>k\<close> of the supply, last row first, and are added to the dropped identifiers.\<close>

definition fill_post ::
  "nat \<Rightarrow> nat \<Rightarrow> board \<Rightarrow> string set \<Rightarrow> world \<Rightarrow> board \<Rightarrow> string set \<Rightarrow> world \<Rightarrow> bool" where
  "fill_post c k b ids w b' ids' w' =
     (board_ok b' \<and> (\<forall>c'. c' \<noteq> c \<longrightarrow> column b' c' = column b c') \<and>
      drop k (column b' c) = drop k (column b c) \<and>
      (\<exists>ts. length ts = k \<and> take k (column b' c) = map Some ts \<and>
            ids' = ids \<union> set (map tile_id ts) \<and>
            map tile_id (rev ts) = map (uuid_supply w) [uuid_pos w..<uuid_pos w + k]) \<and>
      uuid_pos w' = uuid_pos w + k \<and> uuid_supply w' = uuid_supply w)"

text \<open>Column \<open>c\<close> of \<open>b'\<close> is column \<open>c\<close> of \<open>b\<close> after gravity.\<close>

definition col_post :: "board \<Rightarrow> board \<Rightarrow> nat \<Rightarrow> bool" where
  "col_post b b' c =
     (drop (empty_count (column b c)) (column b' c) = filter (\<lambda>x. x \<noteq> None) (column b c) \<and>
      list_all (\<lambda>x. x \<noteq> None) (new_cells b b' c))"

section \<open>Loop invariant of findPathForTarget\<close>

text \<open>The path of the walk: not empty, without repetition, on number tiles of the grid, each
  cell next to the one before it.\<close>

definition path_inv :: "board \<Rightarrow> (int \<times> int) list \<Rightarrow> bool" where
  "path_inv b path = (path \<noteq> [] \<and> distinct path \<and> list_all (number_cell b) path \<and> contiguous path)"


section \<open>Properties of the selection value\<close>

lemma selectedNumberTiles_eq: "selectedNumberTiles cs b = number_tiles_on cs b"
  by (induction cs)
     (auto simp: selectedNumberTiles_def number_tiles_on_def tiles_on_def is_number_tile_def
           split: option.splits)

lemma round_double_safe: "safe_integer x \<Longrightarrow> round_double x = Some x"
proof -
  assume "safe_integer x"
  then have a: "nat \<bar>x\<bar> < 2 ^ 53" by (simp add: safe_integer_def nat_less_iff)
  then have e: "excess_bits (nat \<bar>x\<bar>) = 0" by (subst excess_bits.simps) simp
  have "(2::nat) ^ 53 \<le> 2 ^ 1024" by (rule power_increasing) simp_all
  then have "\<not> (2::nat) ^ 1024 \<le> nat \<bar>x\<bar>" using a by linarith
  then show ?thesis by (simp add: round_double_def Let_def e mult_sgn_abs)
qed

lemma foldl_add_numbers:
  "map tile_value ts = map Num vs \<Longrightarrow> list_all safe_integer vs \<Longrightarrow>
   list_all safe_integer (running (+) k vs) \<Longrightarrow>
     foldl (\<lambda>a t. js_add a (as_number t)) (Some k) ts = Some (k + sum_list vs)"
proof (induction ts arbitrary: vs k)
  case Nil
  then show ?case by simp
next
  case (Cons t ts)
  then obtain v vs' where vs: "vs = v # vs'" "tile_value t = Num v" "map tile_value ts = map Num vs'"
    by (cases vs) auto
  have safe: "safe_integer v" "safe_integer (k + v)" "list_all safe_integer vs'"
    "list_all safe_integer (running (+) (k + v) vs')"
    using Cons.prems(2,3) vs(1) by simp_all
  have step: "js_add (Some k) (as_number t) = Some (k + v)"
    by (simp add: js_add_def as_number_def vs(2) round_double_safe safe(1,2))
  show ?case using Cons.IH[OF vs(3) safe(3,4)] vs(1) step by (simp add: add.assoc)
qed

lemma foldl_mul_numbers:
  "map tile_value ts = map Num vs \<Longrightarrow> list_all safe_integer vs \<Longrightarrow>
   list_all safe_integer (running (*) k vs) \<Longrightarrow>
     foldl (\<lambda>a t. js_mul a (as_number t)) (Some k) ts = Some (k * prod_list vs)"
proof (induction ts arbitrary: vs k)
  case Nil
  then show ?case by simp
next
  case (Cons t ts)
  then obtain v vs' where vs: "vs = v # vs'" "tile_value t = Num v" "map tile_value ts = map Num vs'"
    by (cases vs) auto
  have safe: "safe_integer v" "safe_integer (k * v)" "list_all safe_integer vs'"
    "list_all safe_integer (running (*) (k * v) vs')"
    using Cons.prems(2,3) vs(1) by simp_all
  have step: "js_mul (Some k) (as_number t) = Some (k * v)"
    by (simp add: js_mul_def as_number_def vs(2) round_double_safe safe(1,2))
  show ?case using Cons.IH[OF vs(3) safe(3,4)] vs(1) step by (simp add: mult.assoc)
qed

lemma foldl_map_arg: "foldl (\<lambda>a t. f a (g t)) a ts = foldl f a (map g ts)"
  by (induction ts arbitrary: a) auto

lemma calculate_sum:
  "calculateSelectionValue cs b SumMode = foldl js_add (Some 0) (map as_number (number_tiles_on cs b))"
  by (simp add: calculateSelectionValue_def Let_def selectedNumberTiles_eq reduce_sum_def foldl_map_arg)

lemma calculate_prod:
  "calculateSelectionValue cs b MultiplyMode =
     foldl js_mul (Some 1) (map as_number (number_tiles_on cs b))"
  by (simp add: calculateSelectionValue_def Let_def selectedNumberTiles_eq reduce_prod_def foldl_map_arg)

lemma example_cells:
  "cell_at example_board 0 0 = number_tile ''a0'' 3"
  "cell_at example_board 0 1 = number_tile ''a1'' 5"
  "cell_at example_board 0 2 = time_tile ''a2''"
  "cell_at example_board 1 1 = None"
  "cell_at example_board 2 3 = time_tile ''c3''"
  by (simp_all add: cell_at_def js_get_def example_board_def)

text \<open>C5. The selection value is the fold with \<^verbatim>\<open>+\<close> from 0 (sum mode) or \<^verbatim>\<open>*\<close> from 1 (multiply
  mode), the operations of the JS numbers, over the values of the number tiles on the listed
  coordinates, bonus tiles and empty cells left out. When these values are the integers \<open>vs\<close>
  and they and the running sums (products) are safe integers, so that no step rounds, it is
  the sum (product) of \<open>vs\<close>. With no number tile selected (the empty or an all-bonus
  selection) it is 0 or 1.\<close>

theorem calculateSelectionValue_fold:
  "calculateSelectionValue cs b SumMode =
     foldl js_add (Some 0) (map as_number (number_tiles_on cs b)) \<and>
   calculateSelectionValue cs b MultiplyMode =
     foldl js_mul (Some 1) (map as_number (number_tiles_on cs b)) \<and>
   (map tile_value (number_tiles_on cs b) = map Num vs \<and> list_all safe_integer vs \<and>
    list_all safe_integer (running (+) 0 vs) \<longrightarrow>
      calculateSelectionValue cs b SumMode = Some (sum_list vs)) \<and>
   (map tile_value (number_tiles_on cs b) = map Num vs \<and> list_all safe_integer vs \<and>
    list_all safe_integer (running (*) 1 vs) \<longrightarrow>
      calculateSelectionValue cs b MultiplyMode = Some (prod_list vs)) \<and>
   (number_tiles_on cs b = [] \<longrightarrow>
      calculateSelectionValue cs b SumMode = Some 0 \<and>
      calculateSelectionValue cs b MultiplyMode = Some 1) \<and>
   calculateSelectionValue [] b SumMode = Some 0 \<and>
   calculateSelectionValue [] b MultiplyMode = Some 1"
proof -
  have "map tile_value (number_tiles_on cs b) = map Num vs \<and> list_all safe_integer vs \<and>
    list_all safe_integer (running (+) 0 vs) \<Longrightarrow>
      calculateSelectionValue cs b SumMode = Some (sum_list vs)"
    using foldl_add_numbers[of "number_tiles_on cs b" vs 0]
    by (simp add: calculate_sum foldl_map_arg)
  moreover have "map tile_value (number_tiles_on cs b) = map Num vs \<and> list_all safe_integer vs \<and>
    list_all safe_integer (running (*) 1 vs) \<Longrightarrow>
      calculateSelectionValue cs b MultiplyMode = Some (prod_list vs)"
    using foldl_mul_numbers[of "number_tiles_on cs b" vs 1]
    by (simp add: calculate_prod foldl_map_arg)
  moreover have "number_tiles_on cs b = [] \<Longrightarrow>
      calculateSelectionValue cs b SumMode = Some 0 \<and>
      calculateSelectionValue cs b MultiplyMode = Some 1"
    by (simp add: calculate_sum calculate_prod)
  moreover have "calculateSelectionValue [] b SumMode = Some 0 \<and>
      calculateSelectionValue [] b MultiplyMode = Some 1"
    by (simp add: calculate_sum calculate_prod number_tiles_on_def tiles_on_def)
  ultimately show ?thesis using calculate_sum calculate_prod by blast
qed

theorem calculateSelectionValue_fold_witness:
  "map tile_value (number_tiles_on [cell 0 0, cell 0 2, cell 1 1, cell 0 1] example_board) = map Num [3, 5] \<and>
   list_all safe_integer [3, 5] \<and>
   list_all safe_integer (running (+) 0 [3, 5]) \<and>
   list_all safe_integer (running (*) 1 [3, 5]) \<and>
   calculateSelectionValue [cell 0 0, cell 0 2, cell 1 1, cell 0 1] example_board SumMode = Some 8 \<and>
   calculateSelectionValue [cell 0 0, cell 0 2, cell 1 1, cell 0 1] example_board MultiplyMode = Some 15 \<and>
   number_tiles_on [cell 0 2, cell 2 3] example_board = [] \<and>
   calculateSelectionValue [cell 0 2, cell 2 3] example_board SumMode = Some 0 \<and>
   calculateSelectionValue [cell 0 2, cell 2 3] example_board MultiplyMode = Some 1"
proof -
  have a: "map tile_value (number_tiles_on [cell 0 0, cell 0 2, cell 1 1, cell 0 1] example_board) = map Num [3, 5]"
    by (simp add: number_tiles_on_def tiles_on_def cell_def example_cells number_tile_def time_tile_def)
  have s: "list_all safe_integer [3, 5]" "list_all safe_integer (running (+) 0 [3, 5])"
    "list_all safe_integer (running (*) 1 [3, 5])"
    by (simp_all add: safe_integer_def)
  have b: "number_tiles_on [cell 0 2, cell 2 3] example_board = []"
    by (simp add: number_tiles_on_def tiles_on_def cell_def example_cells number_tile_def time_tile_def)
  note t = calculateSelectionValue_fold[of "[cell 0 0, cell 0 2, cell 1 1, cell 0 1]" example_board "[3, 5]"]
  note t3 = t[THEN conjunct2, THEN conjunct2, THEN conjunct1, THEN mp, OF conjI[OF a conjI[OF s(1) s(2)]]]
  note t4 = t[THEN conjunct2, THEN conjunct2, THEN conjunct2, THEN conjunct1, THEN mp,
      OF conjI[OF a conjI[OF s(1) s(3)]]]
  note u = calculateSelectionValue_fold[of "[cell 0 2, cell 2 3]" example_board "[]"]
  note u5 = u[THEN conjunct2, THEN conjunct2, THEN conjunct2, THEN conjunct2, THEN conjunct1, THEN mp, OF b]
  have "calculateSelectionValue [cell 0 0, cell 0 2, cell 1 1, cell 0 1] example_board SumMode = Some 8"
    using t3 by simp
  moreover have "calculateSelectionValue [cell 0 0, cell 0 2, cell 1 1, cell 0 1] example_board MultiplyMode = Some 15"
    using t4 by simp
  ultimately show ?thesis using a s b u5 by (intro conjI) simp_all
qed

text \<open>Where a step rounds, the value is the rounded one: 16 tiles of value 11 give
  45949729863572160 in multiply mode, one less than \<open>11 ^ 16\<close>.\<close>

lemma excess_bits_example: "excess_bits 45949729863572161 = 3"
  by (simp add: excess_bits.simps)

lemma round_double_example: "round_double 45949729863572161 = Some 45949729863572160"
  by (simp add: round_double_def Let_def excess_bits_example)

lemma elevens_cells:
  "0 \<le> r \<Longrightarrow> r < 5 \<Longrightarrow> 0 \<le> c \<Longrightarrow> c < 5 \<Longrightarrow> cell_at elevens_board r c = number_tile ''t'' 11"
  by (simp add: cell_at_def js_get_def elevens_board_def)

lemma calculateSelectionValue_rounds:
  "calculateSelectionValue sixteen_cells elevens_board MultiplyMode = Some 45949729863572160 \<and>
   prod_list (replicate 16 11) = (45949729863572161 :: int)"
proof -
  have tiles: "map as_number (number_tiles_on sixteen_cells elevens_board) = replicate 16 (Some 11)"
    by (simp add: number_tiles_on_def tiles_on_def sixteen_cells_def cell_def elevens_cells
          number_tile_def as_number_def round_double_safe safe_integer_def eval_nat_numeral)
  have "foldl js_mul (Some 1) (replicate 16 (Some 11)) = Some 45949729863572160"
    by (simp add: eval_nat_numeral js_mul_def round_double_safe safe_integer_def round_double_example)
  then show ?thesis by (simp add: calculate_prod tiles)
qed

lemma selected_filter:
  assumes "\<And>c. c \<in> set cs \<Longrightarrow> \<not> P c \<Longrightarrow> cell_at b (row c) (col c) = None"
  shows "selectedNumberTiles (filter P cs) b = selectedNumberTiles cs b"
  using assms by (induction cs) (auto simp: selectedNumberTiles_def is_number_tile_def)

lemma cell_at_outside: "\<not> in_board b c \<Longrightarrow> cell_at b (row c) (col c) = None"
  by (auto simp: in_board_def cell_at_def js_get_def)

lemma cell_at_off_grid:
  assumes "length b \<le> GRID_SIZE" "\<forall>rw\<in>set b. length rw \<le> GRID_SIZE" "\<not> in_grid c"
  shows "cell_at b (row c) (col c) = None"
proof (cases "in_board b c")
  case False
  then show ?thesis by (rule cell_at_outside)
next
  case True
  then have "nat (row c) < length b" by (auto simp: in_board_def)
  then have "b ! nat (row c) \<in> set b" by (rule nth_mem)
  with assms have "length (b ! nat (row c)) \<le> GRID_SIZE" by blast
  with assms(1,3) True show ?thesis by (auto simp: in_board_def in_grid_def)
qed

text \<open>C10. Coordinates outside the board are dropped without an error: the value is that of
  the list without them. Outside the board means outside the array; on a board of at most
  \<open>GRID_SIZE\<close> rows of at most \<open>GRID_SIZE\<close> cells (so on every \<open>GRID_SIZE\<close> square) every
  coordinate that is negative or at least \<open>GRID_SIZE\<close> in row or column is outside.\<close>

theorem calculateSelectionValue_out_of_bounds:
  "calculateSelectionValue cs b m = calculateSelectionValue (filter (in_board b) cs) b m \<and>
   (length b \<le> GRID_SIZE \<and> (\<forall>rw\<in>set b. length rw \<le> GRID_SIZE) \<longrightarrow>
      calculateSelectionValue cs b m = calculateSelectionValue (filter in_grid cs) b m)"
proof -
  have "selectedNumberTiles (filter (in_board b) cs) b = selectedNumberTiles cs b"
    by (rule selected_filter) (rule cell_at_outside)
  moreover have "length b \<le> GRID_SIZE \<Longrightarrow> \<forall>rw\<in>set b. length rw \<le> GRID_SIZE \<Longrightarrow>
     selectedNumberTiles (filter in_grid cs) b = selectedNumberTiles cs b"
    by (rule selected_filter) (rule cell_at_off_grid)
  ultimately show ?thesis by (simp add: calculateSelectionValue_def)
qed

lemma example_board_shape:
  "length example_board \<le> GRID_SIZE \<and> list_all (\<lambda>rw. length rw \<le> GRID_SIZE) example_board"
  by (simp add: example_board_def GRID_SIZE_def)

theorem calculateSelectionValue_out_of_bounds_witness:
  "length example_board \<le> GRID_SIZE \<and> list_all (\<lambda>rw. length rw \<le> GRID_SIZE) example_board \<and>
   filter in_grid [cell 0 0, cell 5 0, cell 0 (- 1), cell 0 1] = [cell 0 0, cell 0 1] \<and>
   calculateSelectionValue [cell 0 0, cell 5 0, cell 0 (- 1), cell 0 1] example_board SumMode =
     calculateSelectionValue [cell 0 0, cell 0 1] example_board SumMode"
proof -
  have f: "filter in_grid [cell 0 0, cell 5 0, cell 0 (- 1), cell 0 1] = [cell 0 0, cell 0 1]"
    by (simp add: in_grid_def cell_def GRID_SIZE_def)
  have "calculateSelectionValue [cell 0 0, cell 5 0, cell 0 (- 1), cell 0 1] example_board SumMode =
     calculateSelectionValue (filter in_grid [cell 0 0, cell 5 0, cell 0 (- 1), cell 0 1]) example_board SumMode"
    using example_board_shape
      calculateSelectionValue_out_of_bounds[of "[cell 0 0, cell 5 0, cell 0 (- 1), cell 0 1]" example_board SumMode]
    unfolding list_all_iff by blast
  then show ?thesis unfolding f using example_board_shape f by blast
qed

section \<open>Properties of the reducer\<close>

lemma dispatch_snoc:
  "dispatch init s (as @ [a]) w = (case dispatch init s as w of (s1, w1) \<Rightarrow> gameReducer init s1 a w1)"
  by (induction as arbitrary: s w) (auto split: prod.splits)

lemma state_after_0: "state_after init s as w 0 = s"
  by (simp add: state_after_def)

lemma state_after_Suc:
  assumes "k < length as"
  shows "state_after init s as w (Suc k) =
         fst (gameReducer init (state_after init s as w k) (as ! k) (snd (dispatch init s (take k as) w)))"
  using assms by (simp add: state_after_def take_Suc_conv_app_nth dispatch_snoc split: prod.splits)

lemma match_success_score:
  "score (fst (gameReducer init s (MATCH_SUCCESS p cs) w)) = score s + p"
  "bestScore (fst (gameReducer init s (MATCH_SUCCESS p cs) w)) = max (bestScore s) (score s + p)"
  by (simp_all add: match_success_def Let_def split: prod.splits)

lemma match_step:
  assumes "k < length as" "is_match_success (as ! k)"
  shows "score (state_after init s as w (Suc k)) = score (state_after init s as w k) + match_points (as ! k)"
    and "bestScore (state_after init s as w (Suc k)) =
         max (bestScore (state_after init s as w k)) (score (state_after init s as w (Suc k)))"
proof -
  obtain p cs where a: "as ! k = MATCH_SUCCESS p cs"
    using assms(2) by (cases "as ! k") (simp_all add: is_match_success_def)
  have pts: "match_points (as ! k) = p" by (simp add: a match_points_def)
  show "score (state_after init s as w (Suc k)) = score (state_after init s as w k) + match_points (as ! k)"
    unfolding state_after_Suc[OF assms(1)] pts unfolding a by (rule match_success_score(1))
  show "bestScore (state_after init s as w (Suc k)) =
         max (bestScore (state_after init s as w k)) (score (state_after init s as w (Suc k)))"
    unfolding state_after_Suc[OF assms(1)] unfolding a by (simp only: match_success_score)
qed

lemma best_after:
  assumes "\<forall>a\<in>set as. is_match_success a" "k < length as"
  shows "bestScore (state_after init s as w (Suc k)) =
         Max (insert (bestScore s) ((\<lambda>j. score (state_after init s as w j)) ` {1..Suc k}))"
  using assms(2)
proof (induction k)
  case 0
  then have "is_match_success (as ! 0)" using assms(1) by (metis nth_mem)
  from match_step(2)[OF 0 this, of init s w] show ?case by (simp add: state_after_0)
next
  case (Suc k)
  then have k: "k < length as" by simp
  have ms: "is_match_success (as ! Suc k)" using assms(1) Suc.prems by (metis nth_mem)
  have "{1..Suc (Suc k)} = insert (Suc (Suc k)) {1..Suc k}" by auto
  then show ?case
    using match_step(2)[OF Suc.prems ms, of init s w] Suc.IH[OF k]
    by (simp only: image_insert Max_insert finite_insert finite_imageI finite_atLeastAtMost) (simp add: max.commute max.left_commute)
qed

text \<open>C6 (amended). Along any sequence of \<^verbatim>\<open>MATCH_SUCCESS\<close> actions, after each action the best
  score is the maximum of the best score before the sequence and the scores after the actions
  so far; and when no action carries negative points, the score never decreases.\<close>

theorem match_success_scores:
  "(\<forall>a\<in>set as. is_match_success a) \<longrightarrow>
     (\<forall>k<length as. bestScore (state_after init s as w (Suc k)) =
         Max (insert (bestScore s) ((\<lambda>j. score (state_after init s as w j)) ` {1..Suc k}))) \<and>
     ((\<forall>a\<in>set as. 0 \<le> match_points a) \<longrightarrow>
        (\<forall>k<length as. score (state_after init s as w k) \<le> score (state_after init s as w (Suc k))))"
proof (intro impI conjI allI)
  fix k assume "\<forall>a\<in>set as. is_match_success a" "k < length as"
  then show "bestScore (state_after init s as w (Suc k)) =
         Max (insert (bestScore s) ((\<lambda>j. score (state_after init s as w j)) ` {1..Suc k}))"
    by (rule best_after)
next
  fix k assume a: "\<forall>a\<in>set as. is_match_success a" "\<forall>a\<in>set as. 0 \<le> match_points a" "k < length as"
  then have "is_match_success (as ! k)" "0 \<le> match_points (as ! k)" by (metis nth_mem)+
  with match_step(1)[OF a(3), of init s w]
  show "score (state_after init s as w k) \<le> score (state_after init s as w (Suc k))" by simp
qed



text \<open>C8. Dispatching \<^verbatim>\<open>RESET_ANIMATIONS\<close> twice gives the state (and environment) that
  dispatching it once gives.\<close>

theorem reset_animations_idempotent:
  "dispatch init s [RESET_ANIMATIONS, RESET_ANIMATIONS] w = dispatch init s [RESET_ANIMATIONS] w"
  by simp

lemma tick_status: "status (fst (dispatch init s (replicate n TICK) w)) = status s"
  by (induction n arbitrary: s) auto

lemma tick_nonneg: "0 \<le> timeLeft (fst (dispatch init s (replicate (Suc n) TICK) w))"
proof (induction n arbitrary: s)
  case 0 show ?case by simp
next
  case (Suc n)
  show ?case using Suc[of "s\<lparr>timeLeft := max 0 (timeLeft s - 1)\<rparr>"] by simp
qed

lemma tick_zero: "timeLeft s = 0 \<Longrightarrow> timeLeft (fst (dispatch init s (replicate n TICK) w)) = 0"
  by (induction n arbitrary: s) auto

text \<open>C7. In status \<open>Playing\<close> a \<^verbatim>\<open>TICK\<close> sets \<open>timeLeft\<close> to \<open>max 0 (timeLeft - 1)\<close>; the status
  stays \<open>Playing\<close>, after one or more ticks \<open>timeLeft\<close> is not negative, and from 0 it stays
  0 however many ticks follow.\<close>

theorem tick_timeLeft:
  "status s = Playing \<Longrightarrow>
     timeLeft (fst (gameReducer init s TICK w)) = max 0 (timeLeft s - 1) \<and>
     0 \<le> timeLeft (fst (dispatch init s (replicate (Suc n) TICK) w)) \<and>
     status (fst (dispatch init s (replicate n TICK) w)) = Playing \<and>
     (timeLeft s = 0 \<longrightarrow> timeLeft (fst (dispatch init s (replicate n TICK) w)) = 0)"
  using tick_nonneg[of init s n w] tick_status[of init s n w] tick_zero[of s init n w] by simp


lemma same_cell_eq: "same_cell c p \<longleftrightarrow> c = p"
  by (cases c, cases p) (simp add: same_cell_def)

lemma list_ex_same_cell: "list_ex (\<lambda>c. same_cell c p) sel \<longleftrightarrow> p \<in> set sel"
  by (auto simp: list_ex_iff same_cell_eq)

lemma list_ex_eq: "list_ex (\<lambda>c. c = p) sel \<longleftrightarrow> p \<in> set sel"
  by (auto simp: list_ex_iff)



lemma pointer_move_cases:
  assumes "isSelecting s" "selectedCoords s \<noteq> []"
  shows "pointer_move s (Some p) x y =
     (let sel = selectedCoords s in
      if length sel > 1 \<and> sel ! (length sel - 2) = p then
        s\<lparr>selectedCoords := butlast sel,
          valueIndicator := \<lparr>visible = True,
             indicator_value = calculateSelectionValue (butlast sel) (board s) (mode (config s)),
             indicator_x = x, indicator_y = y\<rparr>\<rparr>
      else if p \<in> set sel then
        s\<lparr>valueIndicator := (valueIndicator s)\<lparr>indicator_x := x, indicator_y := y\<rparr>\<rparr>
      else if max \<bar>row (last sel) - row p\<bar> \<bar>col (last sel) - col p\<bar> \<le> 1 then
        s\<lparr>selectedCoords := sel @ [p],
          valueIndicator := \<lparr>visible = True,
             indicator_value = calculateSelectionValue (sel @ [p]) (board s) (mode (config s)),
             indicator_x = x, indicator_y = y\<rparr>\<rparr>
      else s\<lparr>valueIndicator := (valueIndicator s)\<lparr>indicator_x := x, indicator_y := y\<rparr>\<rparr>)"
  using assms
  by (simp add: pointer_move_def Let_def same_cell_eq list_ex_eq last_conv_nth)


lemma update_status_same: "s\<lparr>status := v\<rparr> = s \<longleftrightarrow> status s = v"
proof
  assume a: "s\<lparr>status := v\<rparr> = s"
  have "status (s\<lparr>status := v\<rparr>) = v" by simp
  then show "status s = v" unfolding a .
next
  show "status s = v \<Longrightarrow> s\<lparr>status := v\<rparr> = s" by auto
qed

lemma update_timeLeft_same: "s\<lparr>timeLeft := v\<rparr> = s \<longleftrightarrow> timeLeft s = v"
proof
  assume a: "s\<lparr>timeLeft := v\<rparr> = s"
  have "timeLeft (s\<lparr>timeLeft := v\<rparr>) = v" by simp
  then show "timeLeft s = v" unfolding a .
next
  show "timeLeft s = v \<Longrightarrow> s\<lparr>timeLeft := v\<rparr> = s" by auto
qed


lemma drag_backtrack:
  assumes "status s = Playing" "selectionMode (config s) = Drag"
  shows "selectedCoords (fst (dispatch init s [POINTER_DOWN (Some A), POINTER_MOVE (Some B) x1 y1, POINTER_MOVE (Some A) x2 y2] w)) = [A]"
proof -
  define s1 where "s1 = pointer_down s (Some A)"
  have s1: "isSelecting s1" "selectedCoords s1 = [A]"
    using assms by (simp_all add: s1_def pointer_down_def Let_def)
  define s2 where "s2 = pointer_move s1 (Some B) x1 y1"
  have s2: "isSelecting s2" "selectedCoords s2 = [A] \<or> selectedCoords s2 = [A, B]"
    using s1 by (auto simp: s2_def pointer_move_cases Let_def)
  have "selectedCoords (pointer_move s2 (Some A) x2 y2) = [A]"
    using s2 by (auto simp: pointer_move_cases Let_def)
  then show ?thesis by (simp add: s1_def s2_def)
qed



text \<open>C4. With a drag selection under way (\<open>isSelecting\<close>, selection not empty), a
  \<^verbatim>\<open>POINTER_MOVE\<close> onto a coordinate \<open>p\<close> pops the last entry if \<open>p\<close> is the entry before the
  last; else leaves the selection as it is if \<open>p\<close> is in it; else appends \<open>p\<close> if it is within
  Chebyshev distance 1 of the last entry; else changes nothing but the pointer position of
  the value indicator. So from the selection \<open>[A, B]\<close> a move onto \<open>A\<close> gives \<open>[A]\<close>, and so
  does, in a game being played in drag mode, pointer down on \<open>A\<close>, a move onto \<open>B\<close> and a move
  back onto \<open>A\<close>.\<close>

theorem pointer_move_selection:
  "(isSelecting s \<and> selectedCoords s \<noteq> [] \<longrightarrow>
     (let sel = selectedCoords s;
          s' = fst (gameReducer init s (POINTER_MOVE (Some p) x y) w)
      in if length sel > 1 \<and> sel ! (length sel - 2) = p then selectedCoords s' = butlast sel
         else if p \<in> set sel then selectedCoords s' = sel
         else if max \<bar>row (last sel) - row p\<bar> \<bar>col (last sel) - col p\<bar> \<le> 1
              then selectedCoords s' = sel @ [p]
         else s' = s\<lparr>valueIndicator := (valueIndicator s)\<lparr>indicator_x := x, indicator_y := y\<rparr>\<rparr>) \<and>
     (selectedCoords s = [A, B] \<longrightarrow>
        selectedCoords (fst (gameReducer init s (POINTER_MOVE (Some A) x y) w)) = [A])) \<and>
   (status s = Playing \<and> selectionMode (config s) = Drag \<longrightarrow>
      selectedCoords (fst (dispatch init s
         [POINTER_DOWN (Some A), POINTER_MOVE (Some B) x1 y1, POINTER_MOVE (Some A) x2 y2] w)) = [A])"
proof (intro impI conjI)
  assume a: "isSelecting s \<and> selectedCoords s \<noteq> []"
  let ?sel = "selectedCoords s"
  have red: "\<And>q. fst (gameReducer init s (POINTER_MOVE (Some q) x y) w) = pointer_move s (Some q) x y"
    by simp
  note pm = pointer_move_cases[OF conjunct1[OF a] conjunct2[OF a], unfolded Let_def]
  consider (undo) "length ?sel > 1 \<and> ?sel ! (length ?sel - 2) = p"
    | (again) "\<not> (length ?sel > 1 \<and> ?sel ! (length ?sel - 2) = p)" "p \<in> set ?sel"
    | (adjacent) "\<not> (length ?sel > 1 \<and> ?sel ! (length ?sel - 2) = p)" "p \<notin> set ?sel"
        "max \<bar>row (last ?sel) - row p\<bar> \<bar>col (last ?sel) - col p\<bar> \<le> 1"
    | (far) "\<not> (length ?sel > 1 \<and> ?sel ! (length ?sel - 2) = p)" "p \<notin> set ?sel"
        "\<not> max \<bar>row (last ?sel) - row p\<bar> \<bar>col (last ?sel) - col p\<bar> \<le> 1"
    by blast
  then show "let sel = selectedCoords s;
          s' = fst (gameReducer init s (POINTER_MOVE (Some p) x y) w)
      in if length sel > 1 \<and> sel ! (length sel - 2) = p then selectedCoords s' = butlast sel
         else if p \<in> set sel then selectedCoords s' = sel
         else if max \<bar>row (last sel) - row p\<bar> \<bar>col (last sel) - col p\<bar> \<le> 1
              then selectedCoords s' = sel @ [p]
         else s' = s\<lparr>valueIndicator := (valueIndicator s)\<lparr>indicator_x := x, indicator_y := y\<rparr>\<rparr>"
  proof cases
    case undo
    have "selectedCoords (pointer_move s (Some p) x y) = butlast ?sel"
      unfolding pm if_P[OF undo] by simp
    then show ?thesis unfolding Let_def red if_P[OF undo] .
  next
    case again
    have "selectedCoords (pointer_move s (Some p) x y) = ?sel"
      unfolding pm if_not_P[OF again(1)] if_P[OF again(2)] by simp
    then show ?thesis unfolding Let_def red if_not_P[OF again(1)] if_P[OF again(2)] .
  next
    case adjacent
    have "selectedCoords (pointer_move s (Some p) x y) = ?sel @ [p]"
      unfolding pm if_not_P[OF adjacent(1)] if_not_P[OF adjacent(2)] if_P[OF adjacent(3)] by simp
    then show ?thesis
      unfolding Let_def red if_not_P[OF adjacent(1)] if_not_P[OF adjacent(2)] if_P[OF adjacent(3)] .
  next
    case far
    have "pointer_move s (Some p) x y =
        s\<lparr>valueIndicator := (valueIndicator s)\<lparr>indicator_x := x, indicator_y := y\<rparr>\<rparr>"
      unfolding pm if_not_P[OF far(1)] if_not_P[OF far(2)] if_not_P[OF far(3)] ..
    then show ?thesis
      unfolding Let_def red if_not_P[OF far(1)] if_not_P[OF far(2)] if_not_P[OF far(3)] .
  qed
  assume ab: "selectedCoords s = [A, B]"
  have undo: "length ?sel > 1 \<and> ?sel ! (length ?sel - 2) = A" unfolding ab by simp
  have "selectedCoords (pointer_move s (Some A) x y) = butlast ?sel"
    unfolding pm if_P[OF undo] by simp
  then show "selectedCoords (fst (gameReducer init s (POINTER_MOVE (Some A) x y) w)) = [A]"
    unfolding red ab by simp
next
  assume "status s = Playing \<and> selectionMode (config s) = Drag"
  then show "selectedCoords (fst (dispatch init s
         [POINTER_DOWN (Some A), POINTER_MOVE (Some B) x1 y1, POINTER_MOVE (Some A) x2 y2] w)) = [A]"
    using drag_backtrack by blast
qed


text \<open>C2 (amended). The reducer guards \<^verbatim>\<open>POINTER_DOWN\<close>: outside status \<open>Playing\<close>, or without a
  coordinate, it returns the state unchanged. \<^verbatim>\<open>TICK\<close>, \<^verbatim>\<open>PAUSE_GAME\<close> and \<^verbatim>\<open>RESUME_GAME\<close> carry no
  guard: in every status \<^verbatim>\<open>TICK\<close> sets \<open>timeLeft\<close> to \<open>max 0 (timeLeft - 1)\<close>, \<^verbatim>\<open>PAUSE_GAME\<close> sets
  the status to \<open>Paused\<close> and \<^verbatim>\<open>RESUME_GAME\<close> sets it to \<open>Playing\<close>, and nothing else changes; so
  they leave the state unchanged exactly when \<open>timeLeft\<close> is 0, the status is \<open>Paused\<close>, or
  the status is \<open>Playing\<close>.\<close>

theorem reducer_guards:
  "(status s \<noteq> Playing \<longrightarrow> gameReducer init s (POINTER_DOWN p) w = (s, w)) \<and>
   gameReducer init s (POINTER_DOWN None) w = (s, w) \<and>
   gameReducer init s TICK w = (s\<lparr>timeLeft := max 0 (timeLeft s - 1)\<rparr>, w) \<and>
   gameReducer init s PAUSE_GAME w = (s\<lparr>status := Paused\<rparr>, w) \<and>
   gameReducer init s RESUME_GAME w = (s\<lparr>status := Playing\<rparr>, w) \<and>
   (gameReducer init s TICK w = (s, w) \<longleftrightarrow> timeLeft s = 0) \<and>
   (gameReducer init s PAUSE_GAME w = (s, w) \<longleftrightarrow> status s = Paused) \<and>
   (gameReducer init s RESUME_GAME w = (s, w) \<longleftrightarrow> status s = Playing)"
proof -
  have g1: "status s \<noteq> Playing \<longrightarrow> gameReducer init s (POINTER_DOWN p) w = (s, w)"
    by (cases p) (simp_all add: pointer_down_def)
  have g2: "gameReducer init s (POINTER_DOWN None) w = (s, w)"
    by (simp add: pointer_down_def)
  have g3: "gameReducer init s TICK w = (s\<lparr>timeLeft := max 0 (timeLeft s - 1)\<rparr>, w)"
    by (rule gameReducer.simps)
  have g4: "gameReducer init s PAUSE_GAME w = (s\<lparr>status := Paused\<rparr>, w)"
    by (rule gameReducer.simps)
  have g5: "gameReducer init s RESUME_GAME w = (s\<lparr>status := Playing\<rparr>, w)"
    by (rule gameReducer.simps)
  have "(gameReducer init s TICK w = (s, w)) = (timeLeft s = max 0 (timeLeft s - 1))"
    unfolding g3 prod.inject update_timeLeft_same by (simp only: simp_thms)
  also have "\<dots> = (timeLeft s = 0)" by auto
  finally have g6: "gameReducer init s TICK w = (s, w) \<longleftrightarrow> timeLeft s = 0" .
  have g7: "gameReducer init s PAUSE_GAME w = (s, w) \<longleftrightarrow> status s = Paused"
    unfolding g4 prod.inject update_status_same by (simp only: simp_thms)
  have g8: "gameReducer init s RESUME_GAME w = (s, w) \<longleftrightarrow> status s = Playing"
    unfolding g5 prod.inject update_status_same by (simp only: simp_thms)
  show ?thesis using g1 g2 g3 g4 g5 g6 g7 g8 by (intro conjI)
qed

subsection \<open>The properties on the example game\<close>

lemma example_state_fields:
  "status example_state = Playing" "timeLeft example_state = 3" "score example_state = 10"
  "bestScore example_state = 12" "selectionMode (config example_state) = Drag"
  by (simp_all add: example_state_def)

lemma example_over_fields:
  "status example_over = GameOver" "timeLeft example_over = 3"
  by (simp_all add: example_over_def example_state_fields)
theorem tick_timeLeft_witness:
  "status example_state = Playing \<and>
   timeLeft (fst (gameReducer example_init example_state TICK (example_world []))) = 2 \<and>
   status example_still = Playing \<and> timeLeft example_still = 0 \<and>
   timeLeft (fst (dispatch example_init example_still (replicate 4 TICK) (example_world []))) = 0"
proof -
  have st: "status example_still = Playing" "timeLeft example_still = 0"
    by (simp_all add: example_still_def example_state_fields)
  have "timeLeft (fst (gameReducer example_init example_state TICK (example_world []))) = max 0 (3 - 1)"
    using tick_timeLeft[OF example_state_fields(1), of example_init "example_world []" 0]
    unfolding example_state_fields(2) by (rule conjunct1)
  moreover have "timeLeft (fst (dispatch example_init example_still (replicate 4 TICK) (example_world []))) = 0"
    using tick_timeLeft[OF st(1), of example_init "example_world []" 4] st(2) by blast
  ultimately show ?thesis using st example_state_fields(1) by simp
qed
text \<open>With negative points the score drops: the reducer adds the points as they come.\<close>

theorem match_success_scores_counterexample:
  "is_match_success (MATCH_SUCCESS (- 5) []) \<and>
   score (state_after example_init example_state [MATCH_SUCCESS (- 5) []] (example_world []) (Suc 0))
     < score (state_after example_init example_state [MATCH_SUCCESS (- 5) []] (example_world []) 0)"
  by (simp add: is_match_success_def state_after_def match_success_def Let_def example_state_fields
        split: prod.splits)
theorem match_success_scores_witness:
  "list_all is_match_success example_matches \<and>
   list_all (\<lambda>a. 0 \<le> match_points a) example_matches \<and>
   bestScore (state_after example_init example_state example_matches (example_world []) (Suc (Suc 0))) =
     Max (insert (bestScore example_state)
       ((\<lambda>j. score (state_after example_init example_state example_matches (example_world []) j)) ` {1..Suc (Suc 0)})) \<and>
   score (state_after example_init example_state example_matches (example_world []) (Suc 0))
     \<le> score (state_after example_init example_state example_matches (example_world []) (Suc (Suc 0)))"
proof -
  have h: "list_all is_match_success example_matches" "list_all (\<lambda>a. 0 \<le> match_points a) example_matches"
    by (simp_all add: example_matches_def is_match_success_def match_points_def)
  have len: "Suc 0 < length example_matches" by (simp add: example_matches_def)
  from h have h': "\<forall>a\<in>set example_matches. is_match_success a" "\<forall>a\<in>set example_matches. 0 \<le> match_points a"
    by (simp_all add: list_all_iff)
  note th = match_success_scores[of example_matches example_init example_state "example_world []",
      THEN mp, OF h'(1)]
  note best = th[THEN conjunct1, rule_format, OF len]
  note mono = th[THEN conjunct2, THEN mp, OF h'(2), rule_format, OF len]
  show ?thesis using h best mono by (intro conjI)
qed
text \<open>In a game that is over, \<^verbatim>\<open>TICK\<close>, \<^verbatim>\<open>PAUSE_GAME\<close> and \<^verbatim>\<open>RESUME_GAME\<close> still change the state.\<close>

theorem reducer_guards_counterexample:
  "status example_over \<noteq> Playing \<and> status example_over \<noteq> Paused \<and>
   gameReducer example_init example_over TICK (example_world []) \<noteq> (example_over, example_world []) \<and>
   gameReducer example_init example_over PAUSE_GAME (example_world []) \<noteq> (example_over, example_world []) \<and>
   gameReducer example_init example_over RESUME_GAME (example_world []) \<noteq> (example_over, example_world [])"
proof -
  have t: "gameReducer example_init example_over TICK (example_world []) \<noteq> (example_over, example_world [])"
  proof
    assume eq: "gameReducer example_init example_over TICK (example_world []) = (example_over, example_world [])"
    have "timeLeft (fst (gameReducer example_init example_over TICK (example_world []))) = 2"
      by (simp add: example_over_fields)
    then show False unfolding eq by (simp add: example_over_fields)
  qed
  have p: "gameReducer example_init example_over PAUSE_GAME (example_world []) \<noteq> (example_over, example_world [])"
  proof
    assume eq: "gameReducer example_init example_over PAUSE_GAME (example_world []) = (example_over, example_world [])"
    have "status (fst (gameReducer example_init example_over PAUSE_GAME (example_world []))) = Paused"
      by simp
    then show False unfolding eq by (simp add: example_over_fields)
  qed
  have r: "gameReducer example_init example_over RESUME_GAME (example_world []) \<noteq> (example_over, example_world [])"
  proof
    assume eq: "gameReducer example_init example_over RESUME_GAME (example_world []) = (example_over, example_world [])"
    have "status (fst (gameReducer example_init example_over RESUME_GAME (example_world []))) = Playing"
      by simp
    then show False unfolding eq by (simp add: example_over_fields)
  qed
  show ?thesis using t p r by (simp add: example_over_fields)
qed
theorem reducer_guards_witness:
  "status example_over \<noteq> Playing \<and>
   gameReducer example_init example_over (POINTER_DOWN (Some (cell 0 0))) (example_world []) =
     (example_over, example_world []) \<and>
   timeLeft example_still = 0 \<and>
   gameReducer example_init example_still TICK (example_world []) = (example_still, example_world [])"
proof -
  have a: "status example_over \<noteq> Playing" by (simp add: example_over_fields)
  have b: "timeLeft example_still = 0" by (simp add: example_still_def)
  note g = reducer_guards[of example_over example_init "Some (cell 0 0)" "example_world []"]
  note g1 = g[THEN conjunct1, THEN mp, OF a]
  note h = reducer_guards[of example_still example_init None "example_world []"]
  have "gameReducer example_init example_still TICK (example_world []) = (example_still, example_world [])"
    using h b by blast
  then show ?thesis using a b g1 by (intro conjI)
qed
theorem pointer_move_selection_witness:
  "isSelecting example_dragging \<and> selectedCoords example_dragging = [cell 0 0, cell 0 1] \<and>
   selectedCoords (fst (gameReducer example_init example_dragging (POINTER_MOVE (Some (cell 0 0)) 10 20)
      (example_world []))) = [cell 0 0] \<and>
   status example_state = Playing \<and> selectionMode (config example_state) = Drag \<and>
   selectedCoords (fst (dispatch example_init example_state
      [POINTER_DOWN (Some (cell 0 0)), POINTER_MOVE (Some (cell 0 1)) 10 20, POINTER_MOVE (Some (cell 0 0)) 5 5]
      (example_world []))) = [cell 0 0]"
proof -
  have a: "isSelecting example_dragging" "selectedCoords example_dragging = [cell 0 0, cell 0 1]"
    by (simp_all add: example_dragging_def)
  have ne: "isSelecting example_dragging \<and> selectedCoords example_dragging \<noteq> []" using a by simp
  note t = pointer_move_selection[of example_dragging example_init "cell 0 0" 10 20 "example_world []"
      "cell 0 0" "cell 0 1"]
  note t1 = t[THEN conjunct1, THEN mp, OF ne, THEN conjunct2, THEN mp, OF a(2)]
  note u = pointer_move_selection[of example_state example_init "cell 0 0" 10 20 "example_world []"
      "cell 0 0" "cell 0 1" 10 20 5 5]
  note u1 = u[THEN conjunct2, THEN mp, OF conjI[OF example_state_fields(1) example_state_fields(5)]]
  show ?thesis using a t1 u1 example_state_fields(1,5) by (intro conjI)
qed

section \<open>Properties of applyGravity\<close>

lemma board_ok_row: "board_ok b \<Longrightarrow> r < GRID_SIZE \<Longrightarrow> length (b ! r) = GRID_SIZE"
  by (simp add: board_ok_def list_all_length)

lemma read_cell_ok:
  "board_ok b \<Longrightarrow> r < GRID_SIZE \<Longrightarrow> c < GRID_SIZE \<Longrightarrow> read_cell b (int r) (int c) = Inr (Some (b ! r ! c))"
  by (simp add: read_cell_def js_get_def board_ok_row) (simp add: board_ok_def)

lemma write_cell_ok:
  "board_ok b \<Longrightarrow> r < GRID_SIZE \<Longrightarrow> c < GRID_SIZE \<Longrightarrow>
     write_cell b (int r) (int c) v = Inr (b[r := (b ! r)[c := v]])"
  by (simp add: write_cell_def js_get_def board_ok_row) (simp add: board_ok_def)

lemma board_ok_update:
  "board_ok b \<Longrightarrow> r < GRID_SIZE \<Longrightarrow> board_ok (b[r := (b ! r)[c := v]])"
  by (auto simp: board_ok_def list_all_length nth_list_update)

lemma nth_update_cell:
  "board_ok b \<Longrightarrow> r < GRID_SIZE \<Longrightarrow> c < GRID_SIZE \<Longrightarrow> r' < GRID_SIZE \<Longrightarrow>
     b[r := (b ! r)[c := v]] ! r' ! c' = (if r' = r \<and> c' = c then v else b ! r' ! c')"
  by (auto simp: board_ok_def list_all_length nth_list_update)

lemma column_update_same:
  "board_ok b \<Longrightarrow> r < GRID_SIZE \<Longrightarrow> c < GRID_SIZE \<Longrightarrow>
     column (b[r := (b ! r)[c := v]]) c = (column b c)[r := v]"
  by (auto simp: column_def board_ok_def list_all_length nth_list_update intro!: nth_equalityI)

lemma column_update_other:
  "c' \<noteq> c \<Longrightarrow> column (b[r := (b ! r)[c := v]]) c' = column b c'"
  by (cases "r < length b") (auto simp: column_def nth_list_update intro!: nth_equalityI)

lemma filter_fill_first:
  "j < length xs \<Longrightarrow> \<forall>i\<le>j. xs ! i = None \<Longrightarrow>
     filter (\<lambda>x. x \<noteq> None) (xs[j := Some t]) = Some t # filter (\<lambda>x. x \<noteq> None) xs"
proof (induction xs arbitrary: j)
  case Nil then show ?case by simp
next
  case (Cons x xs)
  have x: "x = None" using Cons.prems(2) by (metis le0 nth_Cons_0)
  show ?case
  proof (cases j)
    case 0 then show ?thesis using x by simp
  next
    case (Suc j')
    have "\<forall>i\<le>j'. xs ! i = None" using Cons.prems(2) Suc by (metis Suc_le_mono nth_Cons_Suc)
    then show ?thesis using Cons.IH[of j'] Cons.prems(1) Suc x by simp
  qed
qed

lemma filter_move_down:
  assumes "r < e" "e < length xs" "xs ! r = Some t" "\<forall>i. r < i \<and> i \<le> e \<longrightarrow> xs ! i = None"
  shows "filter (\<lambda>x. x \<noteq> None) (xs[e := Some t, r := None]) = filter (\<lambda>x. x \<noteq> None) xs"
proof -
  let ?ys = "drop (Suc r) xs"
  have r: "r < length xs" using assms by simp
  have xs: "xs = take r xs @ Some t # ?ys" using id_take_nth_drop[OF r] assms(3) by simp
  have ys: "\<forall>i\<le>e - Suc r. ?ys ! i = None" using assms by auto
  have len: "e - Suc r < length ?ys" using assms by auto
  have "xs[e := Some t, r := None] = (take r xs @ Some t # ?ys)[e := Some t, r := None]" using xs by simp
  also have "\<dots> = take r xs @ None # ?ys[e - Suc r := Some t]"
  proof -
    have "e - r = Suc (e - Suc r)" using assms(1) by simp
    then show ?thesis using assms r by (simp add: list_update_append nth_append)
  qed
  finally have "filter (\<lambda>x. x \<noteq> None) (xs[e := Some t, r := None])
       = filter (\<lambda>x. x \<noteq> None) (take r xs) @ Some t # filter (\<lambda>x. x \<noteq> None) ?ys"
    using filter_fill_first[OF len ys] by simp
  also have "\<dots> = filter (\<lambda>x. x \<noteq> None) (take r xs @ Some t # ?ys)" by simp
  finally show ?thesis using xs by simp
qed

lemma column_nth: "board_ok b \<Longrightarrow> i < GRID_SIZE \<Longrightarrow> column b c ! i = b ! i ! c"
  by (simp add: column_def board_ok_def)

lemma length_column: "length (column b c) = length b"
  by (simp add: column_def)

lemma scan_post_trans:
  "scan_post c b1 b2 e' \<Longrightarrow> board_ok b1 \<Longrightarrow> \<forall>c'. c' \<noteq> c \<longrightarrow> column b1 c' = column b c' \<Longrightarrow>
   filter (\<lambda>x. x \<noteq> None) (column b1 c) = filter (\<lambda>x. x \<noteq> None) (column b c) \<Longrightarrow> scan_post c b b2 e'"
  by (simp add: scan_post_def)

lemma gravity_scan_spec:
  assumes "board_ok b" "c < GRID_SIZE" "n \<le> GRID_SIZE" "scan_inv c n e b"
  shows "\<exists>b' e'. gravity_scan c n e b = Inr (b', e') \<and> scan_post c b b' e'"
  using assms
proof (induction n arbitrary: e b)
  case 0
  then show ?case by (auto simp: scan_inv_def scan_post_def split: if_splits)
next
  case (Suc r)
  have r: "r < GRID_SIZE" "r \<le> GRID_SIZE" using Suc.prems(3) by simp_all
  note ok = Suc.prems(1) and c = Suc.prems(2) and inv = Suc.prems(4)
  have le_r: "\<And>i. r \<le> i \<longleftrightarrow> i = r \<or> Suc r \<le> i" by auto
  have rd: "read_cell b (int r) (int c) = Inr (Some (b ! r ! c))"
    by (rule read_cell_ok[OF ok r(1) c])
  consider (found) "b ! r ! c = None" "e = - 1"
    | (move) "b ! r ! c \<noteq> None" "e \<noteq> - 1"
    | (skip) "(b ! r ! c = None \<and> e \<noteq> - 1) \<or> (b ! r ! c \<noteq> None \<and> e = - 1)"
    by (cases "b ! r ! c = None"; cases "e = - 1"; simp)
  then show ?case
  proof cases
    case found
    have inv': "scan_inv c r (int r) b"
      using inv found r(1) by (auto simp: scan_inv_def le_r)
    have "gravity_scan c (Suc r) e b = gravity_scan c r (int r) b"
      using rd found by simp
    then show ?thesis using Suc.IH[OF ok c r(2) inv'] by simp
  next
    case skip
    have inv': "scan_inv c r e b"
      using inv skip r(1) by (auto simp: scan_inv_def le_r)
    have "gravity_scan c (Suc r) e b = gravity_scan c r e b"
      using rd skip by auto
    then show ?thesis using Suc.IH[OF ok c r(2) inv'] by simp
  next
    case move
    then obtain t where t: "b ! r ! c = Some t" by auto
    from inv move(2) obtain k where k: "e = int k" "Suc r \<le> k" "k < GRID_SIZE"
      and nones: "\<forall>i. Suc r \<le> i \<and> i \<le> k \<longrightarrow> b ! i ! c = None"
      and somes: "\<forall>i. k < i \<and> i < GRID_SIZE \<longrightarrow> b ! i ! c \<noteq> None"
      by (auto simp: scan_inv_def intro: that[of "nat e"])
    define b1 where "b1 = b[k := (b ! k)[c := Some t]]"
    define b2 where "b2 = b1[r := (b1 ! r)[c := None]]"
    have ok1: "board_ok b1" unfolding b1_def by (rule board_ok_update[OF ok k(3)])
    have ok2: "board_ok b2" unfolding b2_def by (rule board_ok_update[OF ok1 r(1)])
    have w1: "write_cell b e (int c) (Some t) = Inr b1"
      unfolding k(1) b1_def by (rule write_cell_ok[OF ok k(3) c])
    have w2: "write_cell b1 (int r) (int c) None = Inr b2"
      unfolding b2_def by (rule write_cell_ok[OF ok1 r(1) c])
    have step: "gravity_scan c (Suc r) e b = gravity_scan c r (e - 1) b2"
      using rd move t w1 w2 by simp
    have cell1: "\<And>i. i < GRID_SIZE \<Longrightarrow> b1 ! i ! c = (if i = k then Some t else b ! i ! c)"
      unfolding b1_def by (simp add: nth_update_cell[OF ok k(3) c])
    have cell2: "\<And>i. i < GRID_SIZE \<Longrightarrow> b2 ! i ! c = (if i = r then None else if i = k then Some t else b ! i ! c)"
      unfolding b2_def by (simp add: nth_update_cell[OF ok1 r(1) c] cell1)
    have e1: "e - 1 = int (k - 1)" "e - 1 \<noteq> - 1" "r \<le> k - 1" using k by auto
    have inv': "scan_inv c r (e - 1) b2"
      unfolding scan_inv_def e1(1) using k nones somes e1(3)
      by (auto simp: cell2)
    have other: "\<forall>c'. c' \<noteq> c \<longrightarrow> column b2 c' = column b c'"
      unfolding b2_def b1_def by (simp add: column_update_other)
    have "column b2 c = (column b c)[k := Some t, r := None]"
      unfolding b2_def by (simp only: column_update_same[OF ok1 r(1) c])
         (simp only: b1_def column_update_same[OF ok k(3) c])
    moreover have "filter (\<lambda>x. x \<noteq> None) ((column b c)[k := Some t, r := None]) = filter (\<lambda>x. x \<noteq> None) (column b c)"
    proof (rule filter_move_down)
      show "r < k" using k(2) by simp
      show "k < length (column b c)" using k(3) ok by (simp add: length_column board_ok_def)
      show "column b c ! r = Some t" using t by (simp add: column_nth[OF ok r(1)])
      show "\<forall>i. r < i \<and> i \<le> k \<longrightarrow> column b c ! i = None"
        using nones k(3) by (auto simp: column_nth[OF ok])
    qed
    ultimately have filt: "filter (\<lambda>x. x \<noteq> None) (column b2 c) = filter (\<lambda>x. x \<noteq> None) (column b c)"
      by simp
    from Suc.IH[OF ok2 c r(2) inv'] obtain b' e' where
      res: "gravity_scan c r (e - 1) b2 = Inr (b', e')" "scan_post c b2 b' e'" by blast
    have "scan_post c b b' e'" by (rule scan_post_trans[OF res(2) ok2 other filt])
    then show ?thesis using step res(1) by simp
  qed
qed


lemma new_tile:
  assumes "(if u < p then createTimeTile w1 else createNumberTile d w1) = (t, w2)"
  shows "tile_id t = uuid_supply w1 (uuid_pos w1) \<and> uuid_pos w2 = Suc (uuid_pos w1) \<and> uuid_supply w2 = uuid_supply w1"
  using assms
  by (auto simp: createTimeTile_def createNumberTile_def randomUUID_def Math_random_def
           split: if_splits prod.splits)

lemma Math_random_uuid:
  "Math_random w = (u, w1) \<Longrightarrow> uuid_pos w1 = uuid_pos w \<and> uuid_supply w1 = uuid_supply w"
  by (auto simp: Math_random_def)

lemma gravity_fill_spec:
  assumes "board_ok b" "c < GRID_SIZE" "k \<le> GRID_SIZE"
  shows "\<exists>b' ids' w'. gravity_fill c k p d b ids w = Inr (b', ids', w') \<and> fill_post c k b ids w b' ids' w'"
  using assms
proof (induction k arbitrary: b ids w)
  case 0
  then show ?case by (simp add: fill_post_def)
next
  case (Suc r)
  have r: "r < GRID_SIZE" "r \<le> GRID_SIZE" using Suc.prems(3) by simp_all
  note ok = Suc.prems(1) and c = Suc.prems(2)
  obtain u w1 where rnd: "Math_random w = (u, w1)" by (cases "Math_random w")
  obtain t w2 where mk: "(if u < p then createTimeTile w1 else createNumberTile d w1) = (t, w2)"
    by (cases "if u < p then createTimeTile w1 else createNumberTile d w1")
  define b1 where "b1 = b[r := (b ! r)[c := Some t]]"
  have ok1: "board_ok b1" unfolding b1_def by (rule board_ok_update[OF ok r(1)])
  have wr: "write_cell b (int r) (int c) (Some t) = Inr b1"
    unfolding b1_def by (rule write_cell_ok[OF ok r(1) c])
  have step: "gravity_fill c (Suc r) p d b ids w = gravity_fill c r p d b1 (insert (tile_id t) ids) w2"
    using rnd mk wr by simp
  from Suc.IH[OF ok1 c r(2), of "insert (tile_id t) ids" w2] obtain b' ids' w' where
    res: "gravity_fill c r p d b1 (insert (tile_id t) ids) w2 = Inr (b', ids', w')"
    and post: "fill_post c r b1 (insert (tile_id t) ids) w2 b' ids' w'" by blast
  from post obtain ts where ts: "length ts = r" "take r (column b' c) = map Some ts"
    "ids' = insert (tile_id t) ids \<union> set (map tile_id ts)"
    "map tile_id (rev ts) = map (uuid_supply w2) [uuid_pos w2..<uuid_pos w2 + r]"
    by (auto simp: fill_post_def)
  have uu: "tile_id t = uuid_supply w (uuid_pos w)" "uuid_pos w2 = Suc (uuid_pos w)" "uuid_supply w2 = uuid_supply w"
    using new_tile[OF mk] Math_random_uuid[OF rnd] by simp_all
  have col1: "column b1 c = (column b c)[r := Some t]"
    unfolding b1_def by (rule column_update_same[OF ok r(1) c])
  have len: "length (column b' c) = GRID_SIZE" "length (column b c) = GRID_SIZE"
    using post ok by (simp_all add: fill_post_def length_column board_ok_def)
  have dr: "drop r (column b' c) = drop r ((column b c)[r := Some t])"
    using post col1 by (simp add: fill_post_def)
  have at_r: "column b' c ! r = Some t"
  proof -
    have "column b' c ! r = drop r (column b' c) ! 0" using len r by simp
    also have "\<dots> = (column b c)[r := Some t] ! r" unfolding dr using len r by simp
    finally show ?thesis using len r by simp
  qed
  have tk: "take (Suc r) (column b' c) = map Some (ts @ [t])"
    using ts(2) at_r len r by (simp add: take_Suc_conv_app_nth)
  have dS: "drop (Suc r) (column b' c) = drop (Suc r) (column b c)"
  proof -
    have "drop (Suc r) (column b' c) = drop 1 (drop r (column b' c))" by simp
    also have "\<dots> = drop 1 (drop r ((column b c)[r := Some t]))" by (simp only: dr)
    also have "\<dots> = drop (Suc r) (column b c)" by simp
    finally show ?thesis .
  qed
  have ups: "[uuid_pos w..<uuid_pos w + Suc r] = uuid_pos w # [Suc (uuid_pos w)..<Suc (uuid_pos w) + r]"
    by (simp add: upt_rec)
  have "fill_post c (Suc r) b ids w b' ids' w'"
    unfolding fill_post_def
  proof (intro conjI exI[of _ "ts @ [t]"])
    show "board_ok b'" using post by (simp add: fill_post_def)
    show "\<forall>c'. c' \<noteq> c \<longrightarrow> column b' c' = column b c'"
      using post by (simp add: fill_post_def b1_def column_update_other)
    show "drop (Suc r) (column b' c) = drop (Suc r) (column b c)" by (rule dS)
    show "length (ts @ [t]) = Suc r" using ts(1) by simp
    show "take (Suc r) (column b' c) = map Some (ts @ [t])" by (rule tk)
    show "ids' = ids \<union> set (map tile_id (ts @ [t]))" using ts(3) by auto
    show "map tile_id (rev (ts @ [t])) = map (uuid_supply w) [uuid_pos w..<uuid_pos w + Suc r]"
      unfolding ups using ts(4) uu by simp
    show "uuid_pos w' = uuid_pos w + Suc r" using post uu by (simp add: fill_post_def)
    show "uuid_supply w' = uuid_supply w" using post uu by (simp add: fill_post_def)
  qed
  then show ?case using step res by simp
qed


lemma filter_compacted:
  assumes "k \<le> length xs" "\<forall>i<k. xs ! i = None" "\<forall>i. k \<le> i \<and> i < length xs \<longrightarrow> xs ! i \<noteq> None"
  shows "filter (\<lambda>x. x \<noteq> None) xs = drop k xs"
proof -
  have tk: "\<forall>x\<in>set (take k xs). x = None"
    using assms(1,2) by (auto simp: in_set_conv_nth)
  have dr: "\<forall>x\<in>set (drop k xs). x \<noteq> None"
  proof
    fix x assume "x \<in> set (drop k xs)"
    then obtain i where "i < length xs - k" "x = xs ! (k + i)" using assms(1) by (auto simp: in_set_conv_nth)
    then show "x \<noteq> None" using assms(3) by simp
  qed
  have "filter (\<lambda>x. x \<noteq> None) xs = filter (\<lambda>x. x \<noteq> None) (take k xs) @ filter (\<lambda>x. x \<noteq> None) (drop k xs)"
    by (metis append_take_drop_id filter_append)
  also have "filter (\<lambda>x. x \<noteq> None) (take k xs) = []" using tk by (simp add: filter_empty_conv)
  also have "filter (\<lambda>x. x \<noteq> None) (drop k xs) = drop k xs" using dr by (simp add: filter_id_conv)
  finally show "filter (\<lambda>x. x \<noteq> None) xs = drop k xs" by simp
qed

lemma empty_count_conv: "empty_count xs = length xs - length (filter (\<lambda>x. x \<noteq> None) xs)"
  using sum_length_filter_compl[of "\<lambda>x. x = None" xs] by (simp add: empty_count_def)

lemma tiles_in_Some: "tiles_in (map Some ts) = ts"
  by (induction ts) (simp_all add: tiles_in_def)

lemma column_step:
  assumes ok: "board_ok b" and c: "c < GRID_SIZE"
  shows "\<exists>b1 e b2 ids' w' ts.
           gravity_scan c GRID_SIZE (- 1) b = Inr (b1, e) \<and>
           gravity_fill c (nat (e + 1)) p d b1 ids w = Inr (b2, ids', w') \<and>
           board_ok b2 \<and> (\<forall>c'. c' \<noteq> c \<longrightarrow> column b2 c' = column b c') \<and>
           column b2 c = map Some ts @ filter (\<lambda>x. x \<noteq> None) (column b c) \<and>
           length ts = empty_count (column b c) \<and>
           ids' = ids \<union> set (map tile_id ts) \<and>
           map tile_id (rev ts) = map (uuid_supply w) [uuid_pos w..<uuid_pos w + length ts] \<and>
           uuid_pos w' = uuid_pos w + length ts \<and> uuid_supply w' = uuid_supply w"
proof -
  have "scan_inv c GRID_SIZE (- 1) b" by (auto simp: scan_inv_def)
  from gravity_scan_spec[OF ok c le_refl this] obtain b1 e where
    scan: "gravity_scan c GRID_SIZE (- 1) b = Inr (b1, e)" and sp: "scan_post c b b1 e" by blast
  define k where "k = nat (e + 1)"
  have ok1: "board_ok b1" and e: "- 1 \<le> e" "e < int GRID_SIZE"
    and oth1: "\<forall>c'. c' \<noteq> c \<longrightarrow> column b1 c' = column b c'"
    and nones: "\<forall>i. int i \<le> e \<longrightarrow> b1 ! i ! c = None"
    and somes: "\<forall>i. e < int i \<and> i < GRID_SIZE \<longrightarrow> b1 ! i ! c \<noteq> None"
    and filt: "filter (\<lambda>x. x \<noteq> None) (column b1 c) = filter (\<lambda>x. x \<noteq> None) (column b c)"
    using sp by (simp_all add: scan_post_def)
  have k: "k \<le> GRID_SIZE" using e by (simp add: k_def)
  have len1: "length (column b1 c) = GRID_SIZE" "length (column b c) = GRID_SIZE"
    using ok ok1 by (simp_all add: length_column board_ok_def)
  have a2: "\<forall>i<k. column b1 c ! i = None"
    using nones k by (auto simp: k_def column_nth[OF ok1])
  have a3: "\<forall>i. k \<le> i \<and> i < length (column b1 c) \<longrightarrow> column b1 c ! i \<noteq> None"
    using somes len1 by (auto simp: k_def column_nth[OF ok1])
  have k1: "k \<le> length (column b1 c)" using k len1 by simp
  have comp: "drop k (column b1 c) = filter (\<lambda>x. x \<noteq> None) (column b c)"
    using filter_compacted[OF k1 a2 a3] filt by simp
  have cnt: "empty_count (column b c) = k"
    using comp[symmetric] len1 k by (simp add: empty_count_conv)
  from gravity_fill_spec[OF ok1 c k, of p d ids w] obtain b2 ids' w' where
    fill: "gravity_fill c k p d b1 ids w = Inr (b2, ids', w')" and fp: "fill_post c k b1 ids w b2 ids' w'"
    by blast
  from fp obtain ts where ts: "length ts = k" "take k (column b2 c) = map Some ts"
    "ids' = ids \<union> set (map tile_id ts)"
    "map tile_id (rev ts) = map (uuid_supply w) [uuid_pos w..<uuid_pos w + k]"
    by (auto simp: fill_post_def)
  have "column b2 c = take k (column b2 c) @ drop k (column b2 c)" by simp
  also have "\<dots> = map Some ts @ filter (\<lambda>x. x \<noteq> None) (column b c)"
    using ts(2) fp comp by (simp add: fill_post_def)
  finally have col2: "column b2 c = map Some ts @ filter (\<lambda>x. x \<noteq> None) (column b c)" .
  show ?thesis
    apply (rule exI[of _ b1], rule exI[of _ e], rule exI[of _ b2], rule exI[of _ ids'],
           rule exI[of _ w'], rule exI[of _ ts])
    using scan fill[unfolded k_def] fp oth1 col2 ts cnt by (simp add: fill_post_def)
qed

lemma col_post_cong:
  "column b c = column b2 c \<Longrightarrow> col_post b b' c = col_post b2 b' c"
  "column b c = column b2 c \<Longrightarrow> new_cells b b' c = new_cells b2 b' c"
  by (simp_all add: col_post_def new_cells_def)

lemma col_post_done:
  assumes "column b' c = map Some ts @ filter (\<lambda>x. x \<noteq> None) (column b c)"
    "length ts = empty_count (column b c)"
  shows "col_post b b' c" "new_cells b b' c = map Some ts"
  using assms by (simp_all add: col_post_def new_cells_def list_all_iff)

lemma upt_split: "a \<le> b \<Longrightarrow> b \<le> c \<Longrightarrow> [a..<c] = [a..<b] @ [b..<c]"
  by (metis le_Suc_ex upt_add_eq_append)

lemma gravity_columns_spec:
  assumes "board_ok b" "distinct cs" "\<forall>c\<in>set cs. c < GRID_SIZE"
  shows "\<exists>b' ids' w'. gravity_columns cs p d b ids w = Inr (b', ids', w') \<and> board_ok b' \<and>
           (\<forall>c. c \<notin> set cs \<longrightarrow> column b' c = column b c) \<and>
           (\<forall>c\<in>set cs. col_post b b' c) \<and>
           ids' = ids \<union> (\<Union>c\<in>set cs. tile_id ` set (tiles_in (new_cells b b' c))) \<and>
           map tile_id (concat (map (\<lambda>c. rev (tiles_in (new_cells b b' c))) cs))
             = map (uuid_supply w) [uuid_pos w..<uuid_pos w'] \<and>
           uuid_supply w' = uuid_supply w \<and> uuid_pos w \<le> uuid_pos w'"
  using assms
proof (induction cs arbitrary: b ids w)
  case Nil
  then show ?case by simp
next
  case (Cons c cs)
  have c: "c < GRID_SIZE" "c \<notin> set cs" "distinct cs" "\<forall>c\<in>set cs. c < GRID_SIZE"
    using Cons.prems by simp_all
  from column_step[OF Cons.prems(1) c(1), of p d ids w] obtain b1 e b2 ids2 w2 ts where
    scan: "gravity_scan c GRID_SIZE (- 1) b = Inr (b1, e)"
    and fill: "gravity_fill c (nat (e + 1)) p d b1 ids w = Inr (b2, ids2, w2)"
    and ok2: "board_ok b2" and oth: "\<forall>c'. c' \<noteq> c \<longrightarrow> column b2 c' = column b c'"
    and col2: "column b2 c = map Some ts @ filter (\<lambda>x. x \<noteq> None) (column b c)"
    and lts: "length ts = empty_count (column b c)"
    and ids2: "ids2 = ids \<union> set (map tile_id ts)"
    and uu: "map tile_id (rev ts) = map (uuid_supply w) [uuid_pos w..<uuid_pos w + length ts]"
      "uuid_pos w2 = uuid_pos w + length ts" "uuid_supply w2 = uuid_supply w"
    by blast
  from Cons.IH[OF ok2 c(3) c(4), of ids2 w2] obtain b' ids' w' where
    res: "gravity_columns cs p d b2 ids2 w2 = Inr (b', ids', w')" and ok': "board_ok b'"
    and keep: "\<forall>c. c \<notin> set cs \<longrightarrow> column b' c = column b2 c"
    and posts: "\<forall>c\<in>set cs. col_post b2 b' c"
    and ids': "ids' = ids2 \<union> (\<Union>c\<in>set cs. tile_id ` set (tiles_in (new_cells b2 b' c)))"
    and uu': "map tile_id (concat (map (\<lambda>c. rev (tiles_in (new_cells b2 b' c))) cs))
             = map (uuid_supply w2) [uuid_pos w2..<uuid_pos w']"
      "uuid_supply w' = uuid_supply w2" "uuid_pos w2 \<le> uuid_pos w'"
    by blast
  have step: "gravity_columns (c # cs) p d b ids w = Inr (b', ids', w')"
    using scan fill res by simp
  have same: "\<And>c'. c' \<in> set cs \<Longrightarrow> column b c' = column b2 c'" using oth c(2) by auto
  have colc: "column b' c = map Some ts @ filter (\<lambda>x. x \<noteq> None) (column b c)"
    using keep c(2) col2 by simp
  note fin = col_post_done[OF colc lts]
  have nc: "\<And>c'. c' \<in> set cs \<Longrightarrow> new_cells b2 b' c' = new_cells b b' c'"
    using col_post_cong(2)[OF same] by simp
  have nc_map: "map (\<lambda>c. rev (tiles_in (new_cells b2 b' c))) cs = map (\<lambda>c. rev (tiles_in (new_cells b b' c))) cs"
    using nc by simp
  have nc_un: "(\<Union>c\<in>set cs. tile_id ` set (tiles_in (new_cells b2 b' c))) = (\<Union>c\<in>set cs. tile_id ` set (tiles_in (new_cells b b' c)))"
    using nc by simp
  have p1: "\<forall>c'. c' \<notin> set (c # cs) \<longrightarrow> column b' c' = column b c'" using keep oth by simp
  have p2: "\<forall>c'\<in>set (c # cs). col_post b b' c'"
    using fin(1) posts col_post_cong(1)[OF same] by auto
  have p3: "ids' = ids \<union> (\<Union>c\<in>set (c # cs). tile_id ` set (tiles_in (new_cells b b' c)))"
    unfolding ids' ids2 nc_un using fin(2) by (auto simp: tiles_in_Some)
  have p4: "map tile_id (concat (map (\<lambda>c. rev (tiles_in (new_cells b b' c))) (c # cs)))
             = map (uuid_supply w) [uuid_pos w..<uuid_pos w']"
  proof -
    have "[uuid_pos w..<uuid_pos w'] = [uuid_pos w..<uuid_pos w + length ts] @ [uuid_pos w2..<uuid_pos w']"
      using uu(2) uu'(3) by (simp add: upt_split[of "uuid_pos w" "uuid_pos w + length ts" "uuid_pos w'"])
    then show ?thesis
      using uu(1) uu'(1) uu(3) fin(2) by (simp add: nc_map[symmetric] tiles_in_Some)
  qed
  show ?case
    using step ok' p1 p2 p3 p4 uu uu' by simp
qed

lemma applyGravity_spec:
  assumes "board_ok b"
  shows "\<exists>b' ids w'. applyGravity b m d w = Inr (b', ids, w') \<and> board_ok b' \<and>
           (\<forall>c<GRID_SIZE. col_post b b' c) \<and>
           ids = (\<Union>c<GRID_SIZE. tile_id ` set (tiles_in (new_cells b b' c))) \<and>
           map tile_id (concat (map (\<lambda>c. rev (tiles_in (new_cells b b' c))) [0..<GRID_SIZE]))
             = map (uuid_supply w) [uuid_pos w..<uuid_pos w']"
proof -
  have cs: "distinct [0..<GRID_SIZE]" "\<forall>c\<in>set [0..<GRID_SIZE]. c < GRID_SIZE" by simp_all
  have set_cs: "set [0..<GRID_SIZE] = {..<GRID_SIZE}" by auto
  from gravity_columns_spec[OF assms cs, of "timeTileProbability d m" d "{}" w]
  show ?thesis unfolding applyGravity_def set_cs by (auto simp: map_idI)
qed

lemma compacted_ids:
  assumes "col_post b b' c"
  shows "mset (map tile_id (tiles_in (drop (empty_count (column b c)) (column b' c)))) =
         mset (map tile_id (tiles_in (column b c)))"
proof -
  have "tiles_in (filter (\<lambda>x. x \<noteq> None) (column b c)) = tiles_in (column b c)"
    by (simp add: tiles_in_def)
  then show ?thesis using assms by (simp add: col_post_def)
qed

text \<open>C3. On a \<open>GRID_SIZE\<close> square board with any pattern of empty cells, \<^verbatim>\<open>applyGravity\<close> returns,
  and in each column \<open>c\<close>: below the top \<open>k\<close> cells, \<open>k\<close> the number of empty cells of the
  column, stand the tiles the column held, in their order from top to bottom (so the
  multiset of their identifiers is kept); the top \<open>k\<close> cells hold tiles; the identifiers of
  the tiles in these top cells, over all columns, are the returned set; and they are the
  identifiers drawn during the call, column by column and in each column from the lowest
  new cell up.\<close>

theorem applyGravity_columns:
  "board_ok b \<longrightarrow>
     (\<exists>b' droppedIds w'. applyGravity b m d w = Inr (b', droppedIds, w') \<and> board_ok b' \<and>
        (\<forall>c<GRID_SIZE.
           drop (empty_count (column b c)) (column b' c) = filter (\<lambda>x. x \<noteq> None) (column b c) \<and>
           mset (map tile_id (tiles_in (drop (empty_count (column b c)) (column b' c)))) =
             mset (map tile_id (tiles_in (column b c))) \<and>
           list_all (\<lambda>x. x \<noteq> None) (new_cells b b' c)) \<and>
        droppedIds = (\<Union>c<GRID_SIZE. tile_id ` set (tiles_in (new_cells b b' c))) \<and>
        map tile_id (concat (map (\<lambda>c. rev (tiles_in (new_cells b b' c))) [0..<GRID_SIZE]))
          = map (uuid_supply w) [uuid_pos w..<uuid_pos w'])"
proof
  assume "board_ok b"
  from applyGravity_spec[OF this, of m d w] obtain b' ids w' where
    r: "applyGravity b m d w = Inr (b', ids, w')" "board_ok b'" "\<forall>c<GRID_SIZE. col_post b b' c"
    "ids = (\<Union>c<GRID_SIZE. tile_id ` set (tiles_in (new_cells b b' c)))"
    "map tile_id (concat (map (\<lambda>c. rev (tiles_in (new_cells b b' c))) [0..<GRID_SIZE]))
       = map (uuid_supply w) [uuid_pos w..<uuid_pos w']"
    by blast
  have "\<forall>c<GRID_SIZE.
           drop (empty_count (column b c)) (column b' c) = filter (\<lambda>x. x \<noteq> None) (column b c) \<and>
           mset (map tile_id (tiles_in (drop (empty_count (column b c)) (column b' c)))) =
             mset (map tile_id (tiles_in (column b c))) \<and>
           list_all (\<lambda>x. x \<noteq> None) (new_cells b b' c)"
    using r(3) compacted_ids by (auto simp: col_post_def)
  with r(1,2,4,5) show "\<exists>b' droppedIds w'. applyGravity b m d w = Inr (b', droppedIds, w') \<and> board_ok b' \<and>
        (\<forall>c<GRID_SIZE.
           drop (empty_count (column b c)) (column b' c) = filter (\<lambda>x. x \<noteq> None) (column b c) \<and>
           mset (map tile_id (tiles_in (drop (empty_count (column b c)) (column b' c)))) =
             mset (map tile_id (tiles_in (column b c))) \<and>
           list_all (\<lambda>x. x \<noteq> None) (new_cells b b' c)) \<and>
        droppedIds = (\<Union>c<GRID_SIZE. tile_id ` set (tiles_in (new_cells b b' c))) \<and>
        map tile_id (concat (map (\<lambda>c. rev (tiles_in (new_cells b b' c))) [0..<GRID_SIZE]))
          = map (uuid_supply w) [uuid_pos w..<uuid_pos w']"
    by blast
qed

lemma col_post_full:
  assumes "col_post b b' c" "length (column b' c) = GRID_SIZE"
  shows "list_all (\<lambda>x. x \<noteq> None) (column b' c)"
proof -
  let ?k = "empty_count (column b c)"
  have "list_all (\<lambda>x. x \<noteq> None) (take ?k (column b' c))"
    using assms(1) by (simp add: col_post_def new_cells_def)
  moreover have "list_all (\<lambda>x. x \<noteq> None) (drop ?k (column b' c))"
    using assms(1) by (simp add: col_post_def list_all_iff)
  ultimately have "list_all (\<lambda>x. x \<noteq> None) (take ?k (column b' c) @ drop ?k (column b' c))"
    by (simp only: list_all_append simp_thms)
  then show ?thesis by simp
qed

lemma full_board:
  assumes "board_ok b'" "\<forall>c<GRID_SIZE. list_all (\<lambda>x. x \<noteq> None) (column b' c)"
  shows "list_all (list_all (\<lambda>x. x \<noteq> None)) b'"
proof -
  have "\<And>r c. r < GRID_SIZE \<Longrightarrow> c < GRID_SIZE \<Longrightarrow> b' ! r ! c \<noteq> None"
  proof -
    fix r c assume rc: "r < GRID_SIZE" "c < GRID_SIZE"
    then have "column b' c ! r \<noteq> None"
      using assms by (simp add: list_all_length length_column board_ok_def)
    then show "b' ! r ! c \<noteq> None" using rc assms(1) by (simp add: column_nth)
  qed
  then show ?thesis using assms(1) by (simp add: list_all_length board_ok_def)
qed

text \<open>C9. On a board of \<open>GRID_SIZE\<close> rows of \<open>GRID_SIZE\<close> cells, \<^verbatim>\<open>applyGravity\<close> returns a board of
  the same shape in which no cell is empty; \<^verbatim>\<open>FINISH_CLEARING\<close> and \<^verbatim>\<open>FINISH_BONUS_FALL\<close> install the
  board they are given, so the state then holds a board without empty cells.\<close>

theorem applyGravity_no_empty:
  "board_ok b \<longrightarrow>
     (\<exists>nextBoard droppedIds w'. applyGravity b m d w = Inr (nextBoard, droppedIds, w') \<and>
        board_ok nextBoard \<and> list_all (list_all (\<lambda>x. x \<noteq> None)) nextBoard \<and>
        board (fst (gameReducer init s (FINISH_CLEARING nextBoard droppedIds) w0)) = nextBoard \<and>
        board (fst (gameReducer init s (FINISH_BONUS_FALL nextBoard droppedIds) w0)) = nextBoard)"
proof
  assume "board_ok b"
  from applyGravity_spec[OF this, of m d w] obtain b' ids w' where
    r: "applyGravity b m d w = Inr (b', ids, w')" "board_ok b'" "\<forall>c<GRID_SIZE. col_post b b' c"
    by blast
  have "\<forall>c<GRID_SIZE. list_all (\<lambda>x. x \<noteq> None) (column b' c)"
  proof (intro allI impI)
    fix c assume "c < GRID_SIZE"
    with r(3) have "col_post b b' c" by simp
    moreover have "length (column b' c) = GRID_SIZE"
      using r(2) by (simp add: length_column board_ok_def)
    ultimately show "list_all (\<lambda>x. x \<noteq> None) (column b' c)" by (rule col_post_full)
  qed
  then have "list_all (list_all (\<lambda>x. x \<noteq> None)) b'" by (rule full_board[OF r(2)])
  with r(1,2) show "\<exists>nextBoard droppedIds w'. applyGravity b m d w = Inr (nextBoard, droppedIds, w') \<and>
        board_ok nextBoard \<and> list_all (list_all (\<lambda>x. x \<noteq> None)) nextBoard \<and>
        board (fst (gameReducer init s (FINISH_CLEARING nextBoard droppedIds) w0)) = nextBoard \<and>
        board (fst (gameReducer init s (FINISH_BONUS_FALL nextBoard droppedIds) w0)) = nextBoard"
    by simp
qed

subsection \<open>Gravity on the example board\<close>

lemma example_board_ok: "board_ok example_board"
  by (simp add: board_ok_def example_board_def GRID_SIZE_def)

theorem applyGravity_columns_witness:
  "board_ok example_board \<and>
   (\<exists>b' droppedIds w'.
      applyGravity example_board SumMode Banana (example_world [1/2, 3/10, 1/10, 9/10, 4/5]) = Inr (b', droppedIds, w') \<and>
      board_ok b' \<and>
      drop (empty_count (column example_board 1)) (column b' 1) =
        filter (\<lambda>x. x \<noteq> None) (column example_board 1) \<and>
      list_all (\<lambda>x. x \<noteq> None) (new_cells example_board b' 1) \<and>
      droppedIds = (\<Union>c<GRID_SIZE. tile_id ` set (tiles_in (new_cells example_board b' c))))"
proof -
  have c: "(1::nat) < GRID_SIZE" by (simp add: GRID_SIZE_def)
  from applyGravity_columns[of example_board SumMode Banana "example_world [1/2, 3/10, 1/10, 9/10, 4/5]",
      THEN mp, OF example_board_ok]
  obtain b' ids w' where
    r: "applyGravity example_board SumMode Banana (example_world [1/2, 3/10, 1/10, 9/10, 4/5]) = Inr (b', ids, w')"
      "board_ok b'"
      "\<forall>c<GRID_SIZE.
           drop (empty_count (column example_board c)) (column b' c) = filter (\<lambda>x. x \<noteq> None) (column example_board c) \<and>
           mset (map tile_id (tiles_in (drop (empty_count (column example_board c)) (column b' c)))) =
             mset (map tile_id (tiles_in (column example_board c))) \<and>
           list_all (\<lambda>x. x \<noteq> None) (new_cells example_board b' c)"
      "ids = (\<Union>c<GRID_SIZE. tile_id ` set (tiles_in (new_cells example_board b' c)))"
    by blast
  from r(3) c have "drop (empty_count (column example_board 1)) (column b' 1) =
        filter (\<lambda>x. x \<noteq> None) (column example_board 1) \<and>
      list_all (\<lambda>x. x \<noteq> None) (new_cells example_board b' 1)" by blast
  with r(1,2,4) example_board_ok show ?thesis by blast
qed

text \<open>The run on the example board: column 0 gets one new tile, column 1 two, and the tiles
  above the cleared cells have moved down.\<close>

lemma applyGravity_example:
  "applyGravity example_board SumMode Banana (example_world [1/2, 3/10, 1/10, 9/10, 4/5]) =
     Inr ([[number_tile ''id'' 2, number_tile ''id++'' 5, time_tile ''a2'', number_tile ''a3'' 2, number_tile ''a4'' 1],
           [number_tile ''a0'' 3, time_tile ''id+'', number_tile ''b2'' 2, number_tile ''b3'' 2, number_tile ''b4'' 1],
           [number_tile ''b0'' 4, number_tile ''a1'' 5, number_tile ''c2'' 5, time_tile ''c3'', number_tile ''c4'' 3],
           [number_tile ''d0'' 2, number_tile ''c1'' 1, number_tile ''d2'' 4, number_tile ''d3'' 1, number_tile ''d4'' 5],
           [number_tile ''e0'' 1, number_tile ''e1'' 3, number_tile ''e2'' 3, number_tile ''e3'' 4, time_tile ''e4'']],
          {''id'', ''id+'', ''id++''},
          (example_world [1/2, 3/10, 1/10, 9/10, 4/5])\<lparr>random_pos := 5, uuid_pos := 3\<rparr>)"
  by (simp add: applyGravity_def GRID_SIZE_def upt_rec[of _ 5] example_board_def read_cell_def write_cell_def js_get_def
        number_tile_def time_tile_def example_world_def Math_random_def randomUUID_def
        createTimeTile_def createNumberTile_def timeTileProbability_def tileRange_def eval_nat_numeral insert_commute)

theorem applyGravity_no_empty_witness:
  "board_ok example_board \<and>
   (\<exists>nextBoard droppedIds w'.
      applyGravity example_board SumMode Banana (example_world [1/2, 3/10, 1/10, 9/10, 4/5]) =
        Inr (nextBoard, droppedIds, w') \<and>
      board_ok nextBoard \<and> list_all (list_all (\<lambda>x. x \<noteq> None)) nextBoard \<and>
      board (fst (gameReducer example_init example_state (FINISH_CLEARING nextBoard droppedIds)
         (example_world []))) = nextBoard)"
proof -
  from applyGravity_no_empty[of example_board SumMode Banana "example_world [1/2, 3/10, 1/10, 9/10, 4/5]"
      example_init example_state "example_world []", THEN mp, OF example_board_ok]
  show ?thesis using example_board_ok by blast
qed

section \<open>Properties of findPathForTarget\<close>

lemma floor_times_range:
  assumes "0 \<le> u" "u < 1" "0 < n"
  shows "0 \<le> floor_times u n" "floor_times u n < int n"
proof -
  have "0 \<le> u * real n" using assms by simp
  then show "0 \<le> floor_times u n" by (simp add: floor_times_def)
  have "u * real n < real n" using assms by simp
  then show "floor_times u n < int n" by (simp add: floor_times_def floor_less_iff)
qed

lemma read_cell_row:
  assumes "board_ok b" "0 \<le> r" "r < int GRID_SIZE"
  shows "\<exists>v. read_cell b r c = Inr v \<and> tile_of v = cell_at b r c"
  using assms by (auto simp: read_cell_def cell_at_def tile_of_def js_get_def board_ok_def split: option.splits)

lemma unit_draws_step: "unit_draws w \<Longrightarrow> unit_draws (w\<lparr>random_pos := k\<rparr>)"
  by (simp add: unit_draws_def)

lemma pick_start_found:
  assumes "board_ok b" "unit_draws w" "start_found b w k"
  shows "\<exists>r c w1. pick_start b w = Some (Inr (r, c, w1)) \<and> number_cell b (r, c) \<and>
           unit_draws w1 \<and> random_sort w1 = random_sort w"
  using assms(2,3)
proof (induction k arbitrary: w)
  case 0
  let ?r = "floor_times (random_draws w (random_pos w)) GRID_SIZE"
  let ?c = "floor_times (random_draws w (Suc (random_pos w))) GRID_SIZE"
  let ?w2 = "w\<lparr>random_pos := Suc (Suc (random_pos w))\<rparr>"
  have pos: "0 < GRID_SIZE" by (simp add: GRID_SIZE_def)
  have rng: "0 \<le> ?r" "?r < int GRID_SIZE" "0 \<le> ?c" "?c < int GRID_SIZE"
    using "0.prems"(1) floor_times_range[OF _ _ pos] by (simp_all add: unit_draws_def)
  obtain v where v: "read_cell b ?r ?c = Inr v" "tile_of v = cell_at b ?r ?c"
    using read_cell_row[OF assms(1) rng(1,2)] by blast
  have hit: "is_number_tile (cell_at b ?r ?c)" using "0.prems"(2) by (simp add: start_found_def)
  have "pick_start b w = Some (Inr (?r, ?c, ?w2))"
    by (subst pick_start.simps) (simp add: Math_random_def v hit)
  moreover have "number_cell b (?r, ?c)" using rng hit by (simp add: number_cell_def)
  ultimately show ?case using "0.prems"(1) by (auto simp: unit_draws_step)
next
  case (Suc k)
  let ?r = "floor_times (random_draws w (random_pos w)) GRID_SIZE"
  let ?c = "floor_times (random_draws w (Suc (random_pos w))) GRID_SIZE"
  let ?w2 = "w\<lparr>random_pos := Suc (Suc (random_pos w))\<rparr>"
  have pos: "0 < GRID_SIZE" by (simp add: GRID_SIZE_def)
  have rng: "0 \<le> ?r" "?r < int GRID_SIZE" "0 \<le> ?c" "?c < int GRID_SIZE"
    using Suc.prems(1) floor_times_range[OF _ _ pos] by (simp_all add: unit_draws_def)
  obtain v where v: "read_cell b ?r ?c = Inr v" "tile_of v = cell_at b ?r ?c"
    using read_cell_row[OF assms(1) rng(1,2)] by blast
  show ?case
  proof (cases "is_number_tile (cell_at b ?r ?c)")
    case True
    have "pick_start b w = Some (Inr (?r, ?c, ?w2))"
      by (subst pick_start.simps) (simp add: Math_random_def v True)
    moreover have "number_cell b (?r, ?c)" using rng True by (simp add: number_cell_def)
    ultimately show ?thesis using Suc.prems(1) by (auto simp: unit_draws_step)
  next
    case False
    have step: "pick_start b w = pick_start b ?w2"
      by (subst pick_start.simps) (simp add: Math_random_def v False)
    have "start_found b ?w2 k" using Suc.prems(2) by (simp add: start_found_def)
    from Suc.IH[OF unit_draws_step[OF Suc.prems(1)] this]
    show ?thesis unfolding step by simp
  qed
qed


lemma neighbor_ok_eq:
  assumes "board_ok b"
  shows "neighbor_ok b visited p = Inr (number_cell b p \<and> p \<notin> visited)"
proof (cases "0 \<le> fst p \<and> fst p < int GRID_SIZE \<and> 0 \<le> snd p \<and> snd p < int GRID_SIZE \<and> p \<notin> visited")
  case True
  then obtain v where "read_cell b (fst p) (snd p) = Inr v" "tile_of v = cell_at b (fst p) (snd p)"
    using read_cell_row[OF assms, of "fst p" "snd p"] by blast
  then show ?thesis using True by (cases p) (simp add: neighbor_ok_def number_cell_def)
next
  case False
  then show ?thesis by (cases p) (auto simp: neighbor_ok_def number_cell_def)
qed

lemma filter_err_Inr: "\<forall>x\<in>set xs. p x = Inr (q x) \<Longrightarrow> filter_err p xs = Inr (filter q xs)"
  by (induction xs) auto

lemma contiguous_snoc:
  "path \<noteq> [] \<Longrightarrow> contiguous path \<Longrightarrow> adjacent4 (last path) q \<Longrightarrow> contiguous (path @ [q])"
proof (induction path)
  case Nil
  then show ?case by simp
next
  case (Cons p ps)
  show ?case
  proof (cases ps)
    case Nil
    then show ?thesis using Cons.prems by simp
  next
    case (Cons p' ps')
    then show ?thesis using Cons.IH Cons.prems by simp
  qed
qed

lemma adjacent4_candidates:
  "q \<in> set [(lr - 1, lc), (lr + 1, lc), (lr, lc - 1), (lr, lc + 1)] \<Longrightarrow> adjacent4 (lr, lc) q"
  by (auto simp: adjacent4_def)

lemma extend_path_spec:
  assumes "board_ok b"
  shows "unit_draws w \<Longrightarrow> path_inv b path \<Longrightarrow> visited = set path \<Longrightarrow>
     \<exists>path' w'. extend_path n b path visited w = Inr (path', w') \<and> path_inv b path' \<and>
        length path \<le> length path' \<and> length path' \<le> length path + n \<and>
        random_sort w' = random_sort w"
proof (induction n arbitrary: path visited w)
  case 0
  then show ?case by simp
next
  case (Suc n)
  obtain lr lc where l: "last path = (lr, lc)" by (cases "last path")
  define cands where "cands = [(lr - 1, lc), (lr + 1, lc), (lr, lc - 1), (lr, lc + 1)]"
  define nb where "nb = filter (\<lambda>p. number_cell b p \<and> p \<notin> visited) cands"
  have fe: "filter_err (neighbor_ok b visited) [(lr - 1, lc), (lr + 1, lc), (lr, lc - 1), (lr, lc + 1)] = Inr nb"
    unfolding nb_def cands_def by (rule filter_err_Inr) (simp add: neighbor_ok_eq[OF assms])
  show ?case
  proof (cases "nb = []")
    case True
    have "extend_path (Suc n) b path visited w = Inr (path, w)"
      using l fe True by simp
    then show ?thesis using Suc.prems(2) by simp
  next
    case False
    let ?u = "random_draws w (random_pos w)"
    let ?w1 = "w\<lparr>random_pos := Suc (random_pos w)\<rparr>"
    let ?i = "floor_times ?u (length nb)"
    have len: "0 < length nb" using False by simp
    have i: "0 \<le> ?i" "?i < int (length nb)"
      using Suc.prems(1) floor_times_range[OF _ _ len] by (simp_all add: unit_draws_def)
    define nxt where "nxt = nb ! nat ?i"
    have get: "js_get nb ?i = Some nxt" using i by (simp add: js_get_def nxt_def)
    have mem: "nxt \<in> set nb" unfolding nxt_def using i by (intro nth_mem) simp
    then have nx: "number_cell b nxt" "nxt \<notin> visited" "nxt \<in> set cands" by (simp_all add: nb_def)
    have adj: "adjacent4 (last path) nxt"
      unfolding l by (rule adjacent4_candidates[OF nx(3)[unfolded cands_def]])
    have step: "extend_path (Suc n) b path visited w = extend_path n b (path @ [nxt]) (insert nxt visited) ?w1"
      using l fe len get by (simp add: Math_random_def)
    have inv': "path_inv b (path @ [nxt])"
      using Suc.prems(2,3) nx(1,2) adj by (simp add: path_inv_def contiguous_snoc)
    have vis': "insert nxt visited = set (path @ [nxt])" using Suc.prems(3) by simp
    from Suc.IH[OF unit_draws_step[OF Suc.prems(1)] inv' vis']
    obtain path' w' where r: "extend_path n b (path @ [nxt]) (insert nxt visited) ?w1 = Inr (path', w')"
      "path_inv b path'" "length (path @ [nxt]) \<le> length path'" "length path' \<le> length (path @ [nxt]) + n"
      "random_sort w' = random_sort ?w1" by blast
    show ?thesis unfolding step using r by simp
  qed
qed

lemma adjacent4_in_candidates:
  assumes "adjacent4 (lr, lc) q"
  shows "q \<in> set [(lr - 1, lc), (lr + 1, lc), (lr, lc - 1), (lr, lc + 1)]"
proof -
  obtain r c where q: "q = (r, c)" by (cases q)
  from assms have "\<bar>lr - r\<bar> + \<bar>lc - c\<bar> = 1" by (simp add: adjacent4_def q)
  then have "(r = lr - 1 \<and> c = lc) \<or> (r = lr + 1 \<and> c = lc) \<or> (r = lr \<and> c = lc - 1) \<or> (r = lr \<and> c = lc + 1)"
    by arith
  then show ?thesis by (auto simp: q)
qed

lemma extend_path_stuck:
  assumes ok: "board_ok b" and ud: "unit_draws w" and inv: "path_inv b path" and vis: "visited = set path"
    and run: "extend_path (Suc n) b path visited w = Inr (path', w')" and same: "length path' = length path"
  shows "\<forall>q. adjacent4 (last path) q \<and> number_cell b q \<longrightarrow> q \<in> set path"
proof -
  obtain lr lc where l: "last path = (lr, lc)" by (cases "last path")
  define cands where "cands = [(lr - 1, lc), (lr + 1, lc), (lr, lc - 1), (lr, lc + 1)]"
  define nb where "nb = filter (\<lambda>p. number_cell b p \<and> p \<notin> visited) cands"
  have fe: "filter_err (neighbor_ok b visited) [(lr - 1, lc), (lr + 1, lc), (lr, lc - 1), (lr, lc + 1)] = Inr nb"
    unfolding nb_def cands_def by (rule filter_err_Inr) (simp add: neighbor_ok_eq[OF ok])
  have "nb = []"
  proof (rule ccontr)
    assume ne: "nb \<noteq> []"
    let ?u = "random_draws w (random_pos w)"
    let ?w1 = "w\<lparr>random_pos := Suc (random_pos w)\<rparr>"
    let ?i = "floor_times ?u (length nb)"
    have len: "0 < length nb" using ne by simp
    have i: "0 \<le> ?i" "?i < int (length nb)"
      using ud floor_times_range[OF _ _ len] by (simp_all add: unit_draws_def)
    define nxt where "nxt = nb ! nat ?i"
    have get: "js_get nb ?i = Some nxt" using i by (simp add: js_get_def nxt_def)
    have mem: "nxt \<in> set nb" unfolding nxt_def using i by (intro nth_mem) simp
    then have nx: "number_cell b nxt" "nxt \<notin> visited" "nxt \<in> set cands" by (simp_all add: nb_def)
    have adj: "adjacent4 (last path) nxt"
      unfolding l by (rule adjacent4_candidates[OF nx(3)[unfolded cands_def]])
    have step: "extend_path (Suc n) b path visited w = extend_path n b (path @ [nxt]) (insert nxt visited) ?w1"
      using l fe len get by (simp add: Math_random_def)
    have inv': "path_inv b (path @ [nxt])"
      using inv vis nx(1,2) adj by (simp add: path_inv_def contiguous_snoc)
    have vis': "insert nxt visited = set (path @ [nxt])" using vis by simp
    from extend_path_spec[OF ok unit_draws_step[OF ud] inv' vis', where n = n and k1 = "Suc (random_pos w)"]
    obtain p2 w2 where "extend_path n b (path @ [nxt]) (insert nxt visited) ?w1 = Inr (p2, w2)"
      "length (path @ [nxt]) \<le> length p2" by blast
    with run step same show False by simp
  qed
  show ?thesis
  proof (intro allI impI)
    fix q assume q: "adjacent4 (last path) q \<and> number_cell b q"
    then have "q \<in> set cands" unfolding l cands_def by (intro adjacent4_in_candidates) simp
    moreover have "q \<notin> set nb" using \<open>nb = []\<close> by simp
    ultimately show "q \<in> set path" using q vis by (simp add: nb_def)
  qed
qed

lemma map_err_read:
  assumes "board_ok b" "list_all (number_cell b) path"
  shows "\<exists>cells. map_err (\<lambda>(r, c). read_cell b r c) path = Inr cells \<and>
           map tile_of cells = map (\<lambda>p. cell_at b (fst p) (snd p)) path"
  using assms(2)
proof (induction path)
  case Nil
  then show ?case by simp
next
  case (Cons p path)
  then have "0 \<le> fst p" "fst p < int GRID_SIZE" by (simp_all add: number_cell_def)
  from read_cell_row[OF assms(1) this, of "snd p"] obtain v where
    v: "read_cell b (fst p) (snd p) = Inr v" "tile_of v = cell_at b (fst p) (snd p)" by blast
  from Cons obtain cells where "map_err (\<lambda>(r, c). read_cell b r c) path = Inr cells"
    "map tile_of cells = map (\<lambda>p. cell_at b (fst p) (snd p)) path" by auto
  then show ?case using v by (cases p) simp
qed

lemma number_cells_tiles:
  assumes "list_all (number_cell b) path"
  shows "map the (filter (\<lambda>t. t \<noteq> None) (map (\<lambda>p. cell_at b (fst p) (snd p)) path)) = path_tiles b path"
  using assms
  by (induction path) (auto simp: path_tiles_def number_cell_def is_number_tile_def split: option.splits)

lemma take_two:
  assumes "2 \<le> length xs"
  shows "\<exists>t1 t2. take 2 xs = [t1, t2] \<and> mset [t1, t2] \<subseteq># mset xs"
proof -
  from assms obtain t1 t2 ys where xs: "xs = t1 # t2 # ys"
    by (cases xs; cases "tl xs") auto
  then show ?thesis by auto
qed


lemma target_from_start_spec:
  assumes ok: "board_ok b" and ud: "unit_draws w" and start: "number_cell b (r, c)"
    and two: "2 \<le> length (numberTiles b)" and perm: "sort_permutes w b"
  shows "\<exists>v. target_from_start b m r c w = Inr v \<and>
           (reachable_by_path b m v \<or> lonely_cell b (r, c) \<and> two_number_tiles b m v)"
proof -
  let ?u = "random_draws w (random_pos w)"
  let ?w1 = "w\<lparr>random_pos := Suc (random_pos w)\<rparr>"
  define n where "n = nat (floor_times ?u 2 + 2 - 1)"
  have "0 \<le> floor_times ?u 2" "floor_times ?u 2 < int 2"
    using ud floor_times_range[of ?u 2] by (simp_all add: unit_draws_def)
  then have n: "n \<le> 2" "0 < n" by (simp_all add: n_def)
  have inv0: "path_inv b [(r, c)]" using start by (simp add: path_inv_def)
  have vis: "{(r, c)} = set [(r, c)]" by simp
  from extend_path_spec[OF ok unit_draws_step[OF ud] inv0 vis, where n = n and k1 = "Suc (random_pos w)"]
  obtain path w2 where
    ext: "extend_path n b [(r, c)] {(r, c)} ?w1 = Inr (path, w2)" and inv: "path_inv b path"
    and len: "1 \<le> length path" "length path \<le> 1 + n" and srt: "random_sort w2 = random_sort w"
    by auto
  have cells_ok: "list_all (number_cell b) path" using inv by (simp add: path_inv_def)
  from map_err_read[OF ok cells_ok] obtain cells where
    cells: "map_err (\<lambda>(r, c). read_cell b r c) path = Inr cells"
      "map tile_of cells = map (\<lambda>p. cell_at b (fst p) (snd p)) path" by blast
  have tt: "map the (filter (\<lambda>t. t \<noteq> None) (map tile_of cells)) = path_tiles b path"
    unfolding cells(2) by (rule number_cells_tiles[OF cells_ok])
  have ltt: "length (path_tiles b path) = length path" by (simp add: path_tiles_def)
  have unfold: "target_from_start b m r c w =
      (if length path < 2 then
         (let randomTiles = take 2 (random_sort w (numberTiles b)) in
          if length randomTiles < 2 then Inr (Some 10) else Inr (reduce_mode m randomTiles))
       else Inr (reduce_mode m (path_tiles b path)))"
  proof -
    have mr: "Math_random w = (?u, ?w1)" by (simp add: Math_random_def)
    note ext' = ext[unfolded n_def]
    show ?thesis
      by (simp only: target_from_start_def mr prod.case Let_def ext' sum.case cells(1) tt ltt srt)
  qed
  show ?thesis
  proof (cases "length path < 2")
    case True
    have "2 \<le> length (random_sort w (numberTiles b))"
      using two perm by (metis sort_permutes_def size_mset)
    from take_two[OF this] obtain t1 t2 where
      t: "take 2 (random_sort w (numberTiles b)) = [t1, t2]"
        "mset [t1, t2] \<subseteq># mset (random_sort w (numberTiles b))" by blast
    have "two_number_tiles b m (reduce_mode m [t1, t2])"
      unfolding two_number_tiles_def using t(2) perm by (auto simp: sort_permutes_def)
    moreover have "lonely_cell b (r, c)"
    proof -
      obtain n' where n': "n = Suc n'" using n(2) by (cases n) simp_all
      have same: "length path = length [(r, c)]" using True len(1) by simp
      from extend_path_stuck[OF ok unit_draws_step[OF ud] inv0 vis ext[unfolded n'] same]
      have "\<forall>q. adjacent4 (r, c) q \<and> number_cell b q \<longrightarrow> q = (r, c)" by simp
      moreover have "\<not> adjacent4 (r, c) (r, c)" by (simp add: adjacent4_def)
      ultimately show ?thesis using start unfolding lonely_cell_def by blast
    qed
    moreover have "target_from_start b m r c w = Inr (reduce_mode m [t1, t2])"
      unfolding unfold using True t(1) by simp
    ultimately show ?thesis by blast
  next
    case False
    then have "length path = 2 \<or> length path = 3" using len n(1) by arith
    then have "number_path b path" using inv by (simp add: number_path_def path_inv_def)
    then have "reachable_by_path b m (reduce_mode m (path_tiles b path))"
      unfolding reachable_by_path_def by blast
    moreover have "target_from_start b m r c w = Inr (reduce_mode m (path_tiles b path))"
      unfolding unfold using False by simp
    ultimately show ?thesis by blast
  qed
qed

text \<open>C1 (amended). On a \<open>GRID_SIZE\<close> square board with at least 2 number tiles, with
  \<^verbatim>\<open>Math.random()\<close> in \<open>[0, 1)\<close>, a sort that permutes, and a search for the start that hits a
  number tile at some draw, \<^verbatim>\<open>findPathForTarget\<close> returns, and the target is the sum (sum mode) or
  product (multiply mode) along a contiguous path of 2 or 3 distinct four-adjacent number
  tiles, or, and then some number tile of the board has no number tile next to it in its row
  or column (the start the walk could not leave), of two number tiles of the board wherever
  they are.\<close>

theorem findPathForTarget_reachable:
  "board_ok b \<and> 2 \<le> length (numberTiles b) \<and> unit_draws w \<and> sort_permutes w b \<and> start_found b w k \<longrightarrow>
     (\<exists>v. findPathForTarget b m w = Some (Inr v) \<and>
          (reachable_by_path b m v \<or> (\<exists>p. lonely_cell b p) \<and> two_number_tiles b m v))"
proof
  assume a: "board_ok b \<and> 2 \<le> length (numberTiles b) \<and> unit_draws w \<and> sort_permutes w b \<and> start_found b w k"
  then have ok: "board_ok b" and two: "2 \<le> length (numberTiles b)" and ud: "unit_draws w"
    and perm: "sort_permutes w b" and sf: "start_found b w k" by simp_all
  from pick_start_found[OF ok ud sf] obtain r c w1 where
    ps: "pick_start b w = Some (Inr (r, c, w1))" and nc: "number_cell b (r, c)"
    and ud1: "unit_draws w1" and srt: "random_sort w1 = random_sort w" by blast
  have perm1: "sort_permutes w1 b" using perm srt by (simp add: sort_permutes_def)
  from target_from_start_spec[OF ok ud1 nc two perm1, of m] obtain v where
    v: "target_from_start b m r c w1 = Inr v"
      "reachable_by_path b m v \<or> lonely_cell b (r, c) \<and> two_number_tiles b m v"
    by blast
  have "findPathForTarget b m w = Some (Inr v)"
    using two ps v(1) by (simp add: findPathForTarget_def)
  then show "\<exists>v. findPathForTarget b m w = Some (Inr v) \<and>
          (reachable_by_path b m v \<or> (\<exists>p. lonely_cell b p) \<and> two_number_tiles b m v)"
    using v(2) by blast
qed


subsection \<open>The target on the example boards\<close>


lemma isolated_cells:
  assumes "number_cell isolated_board p"
  shows "p = (0, 0) \<or> p = (2, 2)"
proof -
  obtain r c where p: "p = (r, c)" by (cases p)
  have r: "r = 0 \<or> r = 1 \<or> r = 2 \<or> r = 3 \<or> r = 4"
    and c: "c = 0 \<or> c = 1 \<or> c = 2 \<or> c = 3 \<or> c = 4"
    using assms unfolding p number_cell_def GRID_SIZE_def by auto
  have n: "is_number_tile (cell_at isolated_board r c)" using assms by (simp add: p number_cell_def)
  show ?thesis
    using r c n unfolding p
    by (elim disjE)
       (simp_all add: cell_at_def js_get_def isolated_board_def is_number_tile_def number_tile_def time_tile_def)
qed

lemma isolated_no_path: "\<not> number_path isolated_board path"
proof
  assume np: "number_path isolated_board path"
  then obtain p q rest where path: "path = p # q # rest"
    by (cases path; cases "tl path") (auto simp: number_path_def)
  from np have "number_cell isolated_board p" "number_cell isolated_board q" "adjacent4 p q"
    by (simp_all add: number_path_def path)
  then show False using isolated_cells[of p] isolated_cells[of q] by (auto simp: adjacent4_def)
qed

lemma isolated_numberTiles:
  "numberTiles isolated_board = [the (number_tile ''a0'' 3), the (number_tile ''c2'' 4)]"
  by (simp add: numberTiles_def isolated_board_def is_number_tile_def number_tile_def time_tile_def)

lemma isolated_reads:
  "read_cell isolated_board 0 0 = Inr (Some (number_tile ''a0'' 3))"
  "read_cell isolated_board 1 0 = Inr (Some (time_tile ''b0''))"
  "read_cell isolated_board 0 1 = Inr (Some (time_tile ''a1''))"
  by (simp_all add: read_cell_def js_get_def isolated_board_def)

lemma isolated_start:
  "pick_start isolated_board (example_world []) =
     Some (Inr (0, 0, (example_world [])\<lparr>random_pos := 2\<rparr>))"
  by (subst pick_start.simps)
     (simp add: Math_random_def example_world_def floor_times_def isolated_reads tile_of_def
        is_number_tile_def number_tile_def)

lemma isolated_target:
  "target_from_start isolated_board SumMode 0 0 ((example_world [])\<lparr>random_pos := 2\<rparr>) = Inr (Some 7)"
  by (simp add: target_from_start_def Math_random_def example_world_def floor_times_def Let_def
        neighbor_ok_def isolated_reads tile_of_def GRID_SIZE_def isolated_numberTiles
        reduce_mode_def reduce_sum_def js_add_def as_number_def round_double_safe safe_integer_def
        is_number_tile_def number_tile_def time_tile_def)

text \<open>On the board whose two number tiles, 3 and 4, stand apart, the walk cannot leave its
  start, the fallback returns 7, and no path of adjacent number tiles exists.\<close>

theorem findPathForTarget_counterexample:
  "board_ok isolated_board \<and> 2 \<le> length (numberTiles isolated_board) \<and>
   findPathForTarget isolated_board SumMode (example_world []) = Some (Inr (Some 7)) \<and>
   \<not> reachable_by_path isolated_board SumMode (Some 7)"
proof -
  have "board_ok isolated_board" by (simp add: board_ok_def isolated_board_def GRID_SIZE_def)
  moreover have "2 \<le> length (numberTiles isolated_board)" by (simp add: isolated_numberTiles)
  moreover have "findPathForTarget isolated_board SumMode (example_world []) = Some (Inr (Some 7))"
    by (simp add: findPathForTarget_def isolated_numberTiles isolated_start isolated_target)
  moreover have "\<not> reachable_by_path isolated_board SumMode (Some 7)"
    by (simp add: reachable_by_path_def isolated_no_path)
  ultimately show ?thesis by (intro conjI)
qed


lemma example_unit_draws: "unit_draws (example_world [0, 0, 1 / 2, 1 / 2])"
  by (auto simp: unit_draws_def example_world_def nth_Cons')

lemma example_numberTiles: "2 \<le> length (numberTiles example_board)"
  by (simp add: numberTiles_def example_board_def is_number_tile_def number_tile_def time_tile_def)

lemma example_start_found: "start_found example_board (example_world [0, 0, 1 / 2, 1 / 2]) 0"
  by (simp add: start_found_def example_world_def floor_times_def cell_at_def js_get_def
        example_board_def is_number_tile_def number_tile_def)

theorem findPathForTarget_reachable_witness:
  "board_ok example_board \<and> 2 \<le> length (numberTiles example_board) \<and>
   unit_draws (example_world [0, 0, 1 / 2, 1 / 2]) \<and>
   sort_permutes (example_world [0, 0, 1 / 2, 1 / 2]) example_board \<and>
   start_found example_board (example_world [0, 0, 1 / 2, 1 / 2]) 0 \<and>
   (\<exists>v. findPathForTarget example_board SumMode (example_world [0, 0, 1 / 2, 1 / 2]) = Some (Inr v) \<and>
        (reachable_by_path example_board SumMode v \<or>
         (\<exists>p. lonely_cell example_board p) \<and> two_number_tiles example_board SumMode v))"
proof -
  have sp: "sort_permutes (example_world [0, 0, 1 / 2, 1 / 2]) example_board"
    by (simp add: sort_permutes_def example_world_def)
  note h = conjI[OF example_board_ok conjI[OF example_numberTiles conjI[OF example_unit_draws
        conjI[OF sp example_start_found]]]]
  from findPathForTarget_reachable[of example_board "example_world [0, 0, 1 / 2, 1 / 2]" 0 SumMode,
      THEN mp, OF h]
  show ?thesis using example_board_ok example_numberTiles example_unit_draws sp example_start_found
    by (intro conjI)
qed

lemma example_reads:
  "read_cell example_board 0 0 = Inr (Some (number_tile ''a0'' 3))"
  "read_cell example_board 1 0 = Inr (Some (number_tile ''b0'' 4))"
  "read_cell example_board 0 1 = Inr (Some (number_tile ''a1'' 5))"
  "read_cell example_board 1 1 = Inr (Some None)"
  "read_cell example_board 0 2 = Inr (Some (time_tile ''a2''))"
  by (simp_all add: read_cell_def js_get_def example_board_def)

text \<open>On the example board the walk goes from \<open>(0, 0)\<close> to \<open>(0, 1)\<close> and stops there: the target
  is 3 + 5.\<close>

lemma findPathForTarget_example:
  "findPathForTarget example_board SumMode (example_world [0, 0, 1 / 2, 1 / 2]) = Some (Inr (Some 8))"
proof -
  have ps: "pick_start example_board (example_world [0, 0, 1 / 2, 1 / 2]) =
     Some (Inr (0, 0, (example_world [0, 0, 1 / 2, 1 / 2])\<lparr>random_pos := 2\<rparr>))"
    by (subst pick_start.simps)
       (simp add: Math_random_def example_world_def floor_times_def example_reads tile_of_def
          is_number_tile_def number_tile_def)
  have tf: "target_from_start example_board SumMode 0 0 ((example_world [0, 0, 1 / 2, 1 / 2])\<lparr>random_pos := 2\<rparr>)
      = Inr (Some 8)"
    by (simp add: target_from_start_def Math_random_def example_world_def floor_times_def Let_def
        neighbor_ok_def example_reads tile_of_def GRID_SIZE_def js_get_def
        reduce_mode_def reduce_sum_def js_add_def as_number_def round_double_safe safe_integer_def
        is_number_tile_def number_tile_def time_tile_def eval_nat_numeral)
  show ?thesis using example_numberTiles by (simp add: findPathForTarget_def ps tf)
qed

end
